theory Spec2Isabelle
  imports Complex_Main "HOL-Library.Finite_Map" "HOL-Library.Log_Nat"
begin

section \<open>Python values used by hoerbuch.py\<close>

text \<open>
  Strings are \<open>string\<close>; one \<open>char\<close> stands for one code point below 256, so \<open>length\<close>
  is Python's \<open>len\<close> on such text. A Python float is the rational number it stands
  for. The timeline of streaming synthesis is modelled with exact arithmetic. Marker
  estimation and the MP3 chapter frames are modelled with the arithmetic of doubles:
  every operation is the exact one followed by the rounding \<open>fl\<close> below.
\<close>

subsection \<open>Doubles\<close>

text \<open>
  \<open>floor_log2 x\<close> is the binary exponent of a positive rational: the \<open>e\<close> with
  \<open>2^e \<le> x < 2^(e+1)\<close>.
\<close>

definition floor_log2 :: "rat \<Rightarrow> int" where
  "floor_log2 x =
     (let (p, q) = quotient_of x;
          e = bitlen p - bitlen q
      in if 2 powi e \<le> x then e else e - 1)"

definition round_half_even :: "rat \<Rightarrow> int" where
  "round_half_even x =
     (let f = \<lfloor>x\<rfloor>; d = x - of_int f
      in if d < 1 / 2 then f else if 1 / 2 < d then f + 1
         else if even f then f else f + 1)"

text \<open>
  \<open>fl x\<close> is the double nearest to \<open>x\<close>, ties to even: 53 significant bits, and below
  \<open>2^-1022\<close> the fixed spacing \<open>2^-1074\<close> of the subnormal numbers. An IEEE operation
  on doubles returns \<open>fl\<close> of the exact result. Overflow to infinity is left out: it
  needs a magnitude of \<open>2^1024\<close>.
\<close>

definition fl :: "rat \<Rightarrow> rat" where
  "fl x = (if x = 0 then 0
           else let e = max (floor_log2 \<bar>x\<bar>) (- 1022);
                    u = 2 powi (e - 52)
                in of_int (round_half_even (x / u)) * u)"

subsection \<open>Decimal rendering of integers (\<open>str(i)\<close>, \<open>f"{i}"\<close>)\<close>

definition digit_char :: "nat \<Rightarrow> char" where
  "digit_char d = ''0123456789'' ! d"

fun str_nat :: "nat \<Rightarrow> string" where
  "str_nat n = (if n < 10 then [digit_char n] else str_nat (n div 10) @ [digit_char (n mod 10)])"

declare str_nat.simps [simp del]

definition digit_val :: "char \<Rightarrow> nat" where
  "digit_val c = of_char c - 48"

definition nat_of_digits :: "string \<Rightarrow> nat" where
  "nat_of_digits s = foldl (\<lambda>a c. 10 * a + digit_val c) 0 s"

definition str_int :: "int \<Rightarrow> string" where
  "str_int i = (if i < 0 then CHR ''-'' # str_nat (nat (- i)) else str_nat (nat i))"

text \<open>The format specification \<open>02d\<close>: at least two characters, zero padded, sign first.\<close>

definition fmt_02d :: "int \<Rightarrow> string" where
  "fmt_02d i = (if 0 \<le> i \<and> i < 10 then CHR ''0'' # str_int i else str_int i)"

subsection \<open>Character classes\<close>

text \<open>\<open>str.isspace\<close>, which is also the class \<open>\s\<close> of \<open>re\<close> and what \<open>str.strip\<close> removes.\<close>

definition is_space :: "char \<Rightarrow> bool" where
  "is_space c = ((of_char c :: nat) \<in> {9, 10, 11, 12, 13, 28, 29, 30, 31, 32, 133, 160})"

text \<open>The class \<open>\w\<close> of \<open>re\<close> on \<open>str\<close> patterns: alphanumeric code points and the underscore.\<close>

definition is_word :: "char \<Rightarrow> bool" where
  "is_word c = (let n = (of_char c :: nat) in
     (48 \<le> n \<and> n \<le> 57) \<or> (65 \<le> n \<and> n \<le> 90) \<or> n = 95 \<or> (97 \<le> n \<and> n \<le> 122) \<or>
     n \<in> {170, 178, 179, 181, 185, 186, 188, 189, 190} \<or>
     (192 \<le> n \<and> n \<le> 214) \<or> (216 \<le> n \<and> n \<le> 246) \<or> (248 \<le> n \<and> n \<le> 255))"

definition strip :: "string \<Rightarrow> string" where
  "strip s = rev (dropWhile is_space (rev (dropWhile is_space s)))"

section \<open>Filename derivation\<close>

text \<open>\<open>re.sub(r'[^\w\s\-]', '', title)\<close> keeps exactly the characters of the class.\<close>

definition keep_char :: "char \<Rightarrow> bool" where
  "keep_char c = (is_word c \<or> is_space c \<or> c = CHR ''-'')"

text \<open>\<open>re.sub(r'\s+', '_', s)\<close>: every maximal run of whitespace becomes one underscore.\<close>

function collapse_ws :: "string \<Rightarrow> string" where
  "collapse_ws [] = []"
| "collapse_ws (c # cs) =
     (if is_space c then CHR ''_'' # collapse_ws (dropWhile is_space cs)
      else c # collapse_ws cs)"
  by pat_completeness auto
termination
  by (relation "measure length") (auto simp: length_dropWhile_le less_Suc_eq_le)

text \<open>The first three statements of \<open>safe_filename\<close>, which build \<open>safe_name\<close>.\<close>

definition safe_name :: "string \<Rightarrow> string" where
  "safe_name title = take 50 (collapse_ws (strip (filter keep_char title)))"

definition safe_filename :: "string \<Rightarrow> int \<Rightarrow> string" where
  "safe_filename title counter = fmt_02d counter @ ''_'' @ safe_name title"

section \<open>Markers and the Vorbis comment codec\<close>

text \<open>
  A marker is the dictionary \<open>{'time_seconds': ..., 'title': ...}\<close>. A segment is the
  pair \<open>(title, text)\<close>. The Vorbis comment block of an OGG file maps a key to its list
  of values; book metadata is a dictionary of strings.
\<close>

record marker =
  time_seconds :: rat
  title :: string

type_synonym segment = "string \<times> string"

type_synonym vcomment = "(string, string list) fmap"

type_synonym metadata = "(string, string) fmap"

definition SILENCE_PRE_SECONDS :: rat where
  "SILENCE_PRE_SECONDS = 1 / 2"

definition SILENCE_POST_SECONDS :: rat where
  "SILENCE_POST_SECONDS = 5"

definition startswith :: "string \<Rightarrow> string \<Rightarrow> bool" where
  "startswith s p = (take (length p) s = p)"

definition time_key :: "nat \<Rightarrow> string" where
  "time_key i = ''chapter_start_time_'' @ str_nat i"

definition title_key :: "nat \<Rightarrow> string" where
  "title_key i = ''chapter_title_'' @ str_nat i"

text \<open>\<open>metadata.get(key, default)\<close>.\<close>

definition dict_get :: "metadata \<Rightarrow> string \<Rightarrow> string \<Rightarrow> string" where
  "dict_get metadata k dflt = (case fmlookup metadata k of Some v \<Rightarrow> v | None \<Rightarrow> dflt)"

text \<open>
  The tagging block of \<open>text_to_ogg\<close>. \<open>float_str\<close> is Python's \<open>str\<close> on floats.
  The loop is \<open>for i, marker in enumerate(markers)\<close>.
\<close>

fun write_marker_fields :: "(rat \<Rightarrow> string) \<Rightarrow> nat \<Rightarrow> marker list \<Rightarrow> vcomment \<Rightarrow> vcomment" where
  "write_marker_fields float_str i [] audio = audio"
| "write_marker_fields float_str i (m # ms) audio =
     write_marker_fields float_str (Suc i) ms
       (fmupd (title_key i) [title m]
         (fmupd (time_key i) [float_str (time_seconds m)] audio))"

definition write_ogg_markers ::
  "(rat \<Rightarrow> string) \<Rightarrow> marker list \<Rightarrow> metadata \<Rightarrow> vcomment \<Rightarrow> vcomment" where
  "write_ogg_markers float_str markers metadata audio =
     (let audio1 = fmupd ''title'' [dict_get metadata ''title'' ''Unknown Title''] audio;
          audio2 = fmupd ''artist'' [dict_get metadata ''artist'' ''Piper TTS''] audio1;
          audio3 = fmfilter (\<lambda>k. \<not> startswith k ''chapter_'') audio2
      in write_marker_fields float_str 0 markers audio3)"

text \<open>
  The \<open>while True\<close> loop of \<open>read_ogg_markers\<close>. \<open>float_parse\<close> is Python's \<open>float\<close> on
  strings, \<open>None\<close> where it raises ValueError. The result \<open>None\<close> is the \<open>except\<close>
  branch (an empty value list raises IndexError); \<open>Some markers\<close> is the \<open>break\<close>.
\<close>

function read_loop ::
  "(string \<Rightarrow> rat option) \<Rightarrow> vcomment \<Rightarrow> nat \<Rightarrow> marker list \<Rightarrow> marker list option" where
  "read_loop float_parse audio i markers =
     (if fmlookup audio (time_key i) \<noteq> None \<and> fmlookup audio (title_key i) \<noteq> None then
        (case the (fmlookup audio (time_key i)) of
           [] \<Rightarrow> None
         | tv # _ \<Rightarrow>
            (case float_parse tv of
               None \<Rightarrow> None
             | Some time_s \<Rightarrow>
                (case the (fmlookup audio (title_key i)) of
                   [] \<Rightarrow> None
                 | nv # _ \<Rightarrow>
                     read_loop float_parse audio (Suc i)
                       (markers @ [\<lparr>time_seconds = time_s, title = nv\<rparr>]))))
      else Some markers)"
  by pat_completeness auto
termination
proof (relation "measure (\<lambda>(float_parse, audio, i, markers).
          Max (insert 0 ((\<lambda>k. Suc (nat_of_digits (drop 19 k))) ` fmdom' audio)) - i)", goal_cases)
  case 1
  show ?case by simp
next
  case (2 float_parse audio i markers tv tvs time_s nv nvs)
  let ?S = "insert 0 ((\<lambda>k. Suc (nat_of_digits (drop 19 k))) ` fmdom' audio)"
  have dv: "digit_val (digit_char d) = d" if "d < 10" for d
  proof -
    from that have "d \<in> {0, 1, 2, 3, 4, 5, 6, 7, 8, 9}" by auto
    then show ?thesis by (auto simp: digit_val_def digit_char_def)
  qed
  have rt: "nat_of_digits (str_nat n) = n" for n
  proof (induction n rule: str_nat.induct)
    case (1 n)
    show ?case
    proof (cases "n < 10")
      case True
      then show ?thesis
        by (subst str_nat.simps) (simp add: nat_of_digits_def dv)
    next
      case False
      with 1 have "nat_of_digits (str_nat (n div 10)) = n div 10" by simp
      with False show ?thesis
        by (subst str_nat.simps) (simp add: nat_of_digits_def dv)
    qed
  qed
  from 2 have "time_key i \<in> fmdom' audio"
    by (auto simp: fmlookup_dom'_iff)
  then have "Suc (nat_of_digits (drop 19 (time_key i))) \<in> ?S"
    by blast
  moreover have "drop 19 (time_key i) = str_nat i"
    by (simp add: time_key_def)
  ultimately have "Suc i \<in> ?S"
    by (simp add: rt)
  moreover have "finite ?S" by simp
  ultimately have "Suc i \<le> Max ?S"
    by (rule Max_ge[rotated])
  then show ?case by simp
qed

declare read_loop.simps [simp del]

text \<open>
  \<open>read_ogg_markers\<close> on the comment block of a file that opened: the marker list when
  it is not empty, and \<open>None\<close> otherwise.
\<close>

definition read_ogg_markers :: "(string \<Rightarrow> rat option) \<Rightarrow> vcomment \<Rightarrow> marker list option" where
  "read_ogg_markers float_parse audio =
     (case read_loop float_parse audio 0 [] of
        None \<Rightarrow> None
      | Some markers \<Rightarrow> (if markers \<noteq> [] then Some markers else None))"

section \<open>Streaming synthesis and the timeline\<close>

text \<open>\<open>text.split("\n\n")\<close>: the pieces between non-overlapping blank-line separators.\<close>

fun split_acc :: "string \<Rightarrow> string \<Rightarrow> string list" where
  "split_acc cur (a # b # cs) =
     (if a = CHR 0x0A \<and> b = CHR 0x0A then rev cur # split_acc [] cs
      else split_acc (a # cur) (b # cs))"
| "split_acc cur cs = [rev cur @ cs]"

definition split_blank :: "string \<Rightarrow> string list" where
  "split_blank s = split_acc [] s"

definition paragraphs_of :: "string \<Rightarrow> string list" where
  "paragraphs_of text_content =
     (let paragraphs = filter (\<lambda>p. strip p \<noteq> []) (split_blank text_content)
      in if paragraphs = [] then [text_content] else paragraphs)"

text \<open>
  The engine maps a paragraph to the lengths (in samples) of the chunks it yields, or
  raises (\<open>None\<close>). Each chunk advances the clock by \<open>len(chunk) / sample_rate\<close>;
  a sample rate of zero raises ZeroDivisionError.
\<close>

type_synonym engine = "string \<Rightarrow> nat list option"

fun write_chunks :: "nat \<Rightarrow> nat list \<Rightarrow> rat \<Rightarrow> rat option" where
  "write_chunks sample_rate [] current_time_seconds = Some current_time_seconds"
| "write_chunks sample_rate (n # ns) current_time_seconds =
     (if sample_rate = 0 then None
      else write_chunks sample_rate ns (current_time_seconds + of_nat n / of_nat sample_rate))"

fun synth_paragraphs :: "engine \<Rightarrow> nat \<Rightarrow> string list \<Rightarrow> rat \<Rightarrow> rat option" where
  "synth_paragraphs voice sample_rate [] current_time_seconds = Some current_time_seconds"
| "synth_paragraphs voice sample_rate (para # paras) current_time_seconds =
     (case voice para of
        None \<Rightarrow> None
      | Some chunks \<Rightarrow>
         (case write_chunks sample_rate chunks current_time_seconds of
            None \<Rightarrow> None
          | Some t \<Rightarrow> synth_paragraphs voice sample_rate paras t))"

fun synth_segments ::
  "engine \<Rightarrow> nat \<Rightarrow> segment list \<Rightarrow> marker list \<Rightarrow> rat \<Rightarrow> (marker list \<times> rat) option" where
  "synth_segments voice sample_rate [] markers current_time_seconds =
     Some (markers, current_time_seconds)"
| "synth_segments voice sample_rate (seg # segs) markers current_time_seconds =
     (case synth_paragraphs voice sample_rate (paragraphs_of (snd seg)) current_time_seconds of
        None \<Rightarrow> None
      | Some t \<Rightarrow>
          synth_segments voice sample_rate segs
            (markers @ [\<lparr>time_seconds = current_time_seconds, title = fst seg\<rparr>]) t)"

text \<open>
  The timing of \<open>text_to_ogg\<close>: the markers it returns and the total duration it
  prints, or \<open>None\<close> when synthesis raises.
\<close>

definition text_to_ogg :: "engine \<Rightarrow> nat \<Rightarrow> segment list \<Rightarrow> (marker list \<times> rat) option" where
  "text_to_ogg voice sample_rate segments =
     (case synth_segments voice sample_rate segments [] (0 + SILENCE_PRE_SECONDS) of
        None \<Rightarrow> None
      | Some (markers, t) \<Rightarrow> Some (markers, t + SILENCE_POST_SECONDS))"

section \<open>Approximate markers\<close>

text \<open>
  The loop of \<open>calculate_approximate_markers\<close>. The quotient of the two lengths, the
  product and the sum are each one operation on doubles.
\<close>

fun approx_loop :: "rat \<Rightarrow> nat \<Rightarrow> segment list \<Rightarrow> rat \<Rightarrow> marker list \<Rightarrow> marker list" where
  "approx_loop tts_duration total_chars [] current_time_seconds markers = markers"
| "approx_loop tts_duration total_chars (seg # segs) current_time_seconds markers =
     (let char_ratio = fl (of_nat (length (snd seg)) / of_nat total_chars);
          segment_duration = fl (tts_duration * char_ratio)
      in approx_loop tts_duration total_chars segs (fl (current_time_seconds + segment_duration))
           (markers @ [\<lparr>time_seconds = current_time_seconds, title = fst seg\<rparr>]))"

text \<open>
  The second argument is the duration read from the OGG file, the double
  \<open>frames / samplerate\<close>, and \<open>None\<close> when reading it raises.
\<close>

definition calculate_approximate_markers :: "segment list \<Rightarrow> rat option \<Rightarrow> marker list" where
  "calculate_approximate_markers segments ogg_duration =
     (case ogg_duration of
        None \<Rightarrow> []
      | Some total_ogg_duration \<Rightarrow>
         (let fixed_silence_duration = fl (SILENCE_PRE_SECONDS + SILENCE_POST_SECONDS);
              tts_duration = max 0 (fl (total_ogg_duration - fixed_silence_duration));
              total_chars = sum_list (map (\<lambda>seg. length (snd seg)) segments)
          in if total_chars = 0 \<or> tts_duration = 0 then []
             else approx_loop tts_duration total_chars segments SILENCE_PRE_SECONDS []))"

section \<open>MP3 chapter frames\<close>

text \<open>\<open>int(x)\<close> on a float truncates toward zero.\<close>

definition py_int :: "rat \<Rightarrow> int" where
  "py_int x = (if 0 \<le> x then \<lfloor>x\<rfloor> else \<lceil>x\<rceil>)"

text \<open>
  A CHAP frame as mutagen holds it. The element id is given as \<open>bytes\<close>, and the frame
  keeps the \<open>str\<close> of it: \<open>b'chp_1'\<close> with the prefix and the quotes. The program
  assigns the title frame to an attribute \<open>subframes\<close>, which is not a field of the
  frame: its \<open>sub_frames\<close> stay empty.
\<close>

record chap =
  element_id :: string
  start_time :: int
  end_time :: int
  start_offset :: int
  end_offset :: int
  sub_frames :: "string list"

record id3 =
  TIT2 :: string
  TPE1 :: string
  CHAP :: "chap list"

text \<open>
  The loop of \<open>write_mp3_chapter_tags\<close>. The offset is a double, and so is its product
  with 1000, which \<open>int\<close> then truncates.
\<close>

fun chap_loop :: "marker list \<Rightarrow> nat \<Rightarrow> marker list \<Rightarrow> chap list \<Rightarrow> chap list" where
  "chap_loop markers chapter_frame_id [] tags = tags"
| "chap_loop markers chapter_frame_id (m # ms) tags =
     (let cid = chapter_frame_id + 1;
          start_ms = py_int (fl (time_seconds m * 1000));
          end_ms = (if cid < length markers
                    then py_int (fl (time_seconds (markers ! cid) * 1000)) else 0)
      in chap_loop markers cid ms
           (tags @ [\<lparr>element_id = ''b'' @ [CHR 0x27] @ ''chp_'' @ str_nat cid @ [CHR 0x27],
                     start_time = start_ms, end_time = end_ms,
                     start_offset = 0, end_offset = 0, sub_frames = []\<rparr>]))"

text \<open>
  The four numbers of a CHAP frame are written as unsigned 32-bit integers. Saving
  raises when one of them does not fit, nothing is written then, and the function
  returns \<open>False\<close>.
\<close>

definition fits_uint32 :: "int \<Rightarrow> bool" where
  "fits_uint32 n = (0 \<le> n \<and> n < 2 ^ 32)"

definition chap_writable :: "chap \<Rightarrow> bool" where
  "chap_writable c =
     (fits_uint32 (start_time c) \<and> fits_uint32 (end_time c) \<and>
      fits_uint32 (start_offset c) \<and> fits_uint32 (end_offset c))"

text \<open>The tag that is saved, or \<open>None\<close> when the function returns \<open>False\<close>.\<close>

definition write_mp3_chapter_tags :: "marker list \<Rightarrow> metadata \<Rightarrow> id3 option" where
  "write_mp3_chapter_tags markers metadata =
     (let frames = chap_loop markers 0 markers []
      in if list_all chap_writable frames then
           Some \<lparr>TIT2 = dict_get metadata ''title'' ''Unknown Title'',
                 TPE1 = dict_get metadata ''artist'' ''Piper TTS'',
                 CHAP = frames\<rparr>
         else None)"

section \<open>The command-line program\<close>

text \<open>
  A \<open>pathlib.Path\<close> is its directory, the stem of its name and its suffix. A file is
  what the program can observe of it: its Vorbis comment block (\<open>None\<close> when mutagen
  cannot open it as OGG Vorbis), its audio duration \<open>frames / samplerate\<close> (\<open>None\<close> when
  soundfile cannot read it), and its ID3 tag. The filesystem maps the paths that exist
  to their files.
\<close>

record path =
  parent :: string
  stem :: string
  suffix :: string

definition with_suffix :: "path \<Rightarrow> string \<Rightarrow> path" where
  "with_suffix p s = p\<lparr>suffix := s\<rparr>"

record file_data =
  vorbis :: "vcomment option"
  seconds :: "rat option"
  id3_tags :: "id3 option"

type_synonym filesystem = "path \<rightharpoonup> file_data"

definition partial_file :: file_data where
  "partial_file = \<lparr>vorbis = None, seconds = None, id3_tags = None\<rparr>"

text \<open>
  The value of \<open>args.chapters\<close> after normalisation is \<open>False\<close>, \<open>True\<close> or an \<open>int\<close>.
  In Python \<open>bool\<close> is a subclass of \<open>int\<close>: \<open>isinstance(True, int)\<close> holds, \<open>True\<close>
  counts as 1 and \<open>False\<close> as 0 in comparisons, arithmetic and \<open>format\<close>.
\<close>

datatype pyval = PyBool bool | PyInt int

definition isinstance_int :: "pyval \<Rightarrow> bool" where
  "isinstance_int v = (case v of PyBool b \<Rightarrow> True | PyInt n \<Rightarrow> True)"

definition int_value :: "pyval \<Rightarrow> int" where
  "int_value v = (case v of PyBool b \<Rightarrow> (if b then 1 else 0) | PyInt n \<Rightarrow> n)"

definition truthy :: "pyval \<Rightarrow> bool" where
  "truthy v = (case v of PyBool b \<Rightarrow> b | PyInt n \<Rightarrow> n \<noteq> 0)"

text \<open>
  What argparse leaves in \<open>args.chapters\<close>: the default \<open>False\<close> when \<open>-k\<close> is absent,
  the constant \<open>True\<close> for a bare \<open>-k\<close>, and otherwise the string that follows \<open>-k\<close>.
\<close>

datatype raw_chapters = Absent | Bare_flag | Given string

record args =
  input_file :: string
  mp3 :: bool
  chapters :: raw_chapters

text \<open>
  How the \<open>ffmpeg\<close> subprocess ends: it converts, it fails (\<open>CalledProcessError\<close>), the
  command is missing (\<open>FileNotFoundError\<close>), or \<open>subprocess.run\<close> raises something else.
  The flag says whether a partial output file is left behind.
\<close>

datatype conversion =
  Converted | Called_process_error bool | File_not_found_error | Other_error bool

text \<open>The result of the document extractors, chosen by the extension of the input.\<close>

datatype extraction =
  Unsupported_extension | Parsing_raised | Extracted "segment list" metadata

text \<open>
  The collaborators of a run: pathlib, Python's \<open>int\<close>, \<open>str\<close> and \<open>float\<close>, the voice
  model and the engine, ffmpeg, the document extractors, \<open>get_title_from_path\<close> and the
  line typed at the prompt (after \<open>strip().lower()\<close>).
\<close>

record env =
  to_path :: "string \<Rightarrow> path"
  int_of_str :: "string \<Rightarrow> int option"
  str_of_float :: "rat \<Rightarrow> string"
  float_of_str :: "string \<Rightarrow> rat option"
  voice_found :: bool
  voice_loads :: bool
  tts_voice :: engine
  tts_sample_rate :: nat
  ffmpeg_installed :: bool
  ffmpeg :: "path \<Rightarrow> path \<Rightarrow> conversion"
  extractor :: "path \<Rightarrow> extraction"
  title_from_path :: "path \<Rightarrow> string"
  typed_selection :: string

text \<open>The messages of \<open>run_chapter_logic\<close> and \<open>main\<close> that tell which way a run went.\<close>

datatype event =
  Direct_chapter int string
  | Warning_output_exists path
  | Warning_chapter_not_found int nat
  | Interactive_started nat
  | Combined_synthesis
  | Skipping_chapter string path
  | Error_synthesizing_chapter nat string
  | Split_finished
  | Single_chapter_finished
  | Invalid_selection
  | Continuing_standard
  | Output_exists_stop path
  | Critical_error

datatype outcome = Returned bool | Raised

subsection \<open>Conversion and tagging\<close>

definition convert_ogg_to_mp3 ::
  "env \<Rightarrow> path \<Rightarrow> path \<Rightarrow> bool \<Rightarrow> filesystem \<Rightarrow> outcome \<times> filesystem" where
  "convert_ogg_to_mp3 e ogg_path mp3_path delete_ogg fs =
     (case ffmpeg e ogg_path mp3_path of
        Converted \<Rightarrow>
          (let fs1 = fs(mp3_path \<mapsto>
                 \<lparr>vorbis = None,
                  seconds = (case fs ogg_path of None \<Rightarrow> None | Some f \<Rightarrow> seconds f),
                  id3_tags = None\<rparr>)
           in if delete_ogg then
                (if fs1 ogg_path = None then (Returned False, fs1)
                 else (Returned True, fs1(ogg_path := None)))
              else (Returned True, fs1))
      | Called_process_error left \<Rightarrow>
          (Returned False, if left then fs(mp3_path \<mapsto> partial_file) else fs)
      | File_not_found_error \<Rightarrow> (Returned False, fs)
      | Other_error left \<Rightarrow>
          (Raised, if left then fs(mp3_path \<mapsto> partial_file) else fs))"

text \<open>Saving an ID3 tag into the MP3 file; a failure is caught and reported only.\<close>

definition save_id3 :: "path \<Rightarrow> id3 \<Rightarrow> filesystem \<Rightarrow> filesystem" where
  "save_id3 mp3_path tag fs =
     (case fs mp3_path of None \<Rightarrow> fs | Some f \<Rightarrow> fs(mp3_path \<mapsto> f\<lparr>id3_tags := Some tag\<rparr>))"

subsection \<open>Synthesis into files\<close>

text \<open>
  \<open>text_to_ogg\<close> with its file: loading the voice may raise before the file is opened;
  an engine failure leaves the partly written file behind.
\<close>

definition text_to_ogg_file ::
  "env \<Rightarrow> segment list \<Rightarrow> path \<Rightarrow> metadata \<Rightarrow> filesystem \<Rightarrow> marker list option \<times> filesystem" where
  "text_to_ogg_file e segments output_file metadata fs =
     (if \<not> voice_loads e then (None, fs)
      else case text_to_ogg (tts_voice e) (tts_sample_rate e) segments of
             None \<Rightarrow> (None, fs(output_file \<mapsto> partial_file))
           | Some (markers, t) \<Rightarrow>
               (Some markers,
                fs(output_file \<mapsto>
                  \<lparr>vorbis = Some (write_ogg_markers (str_of_float e) markers metadata fmempty),
                   seconds = Some t, id3_tags = None\<rparr>)))"

text \<open>The result is \<open>False\<close> when an exception leaves \<open>synthesize_separate_chapter\<close>.\<close>

definition synthesize_separate_chapter ::
  "env \<Rightarrow> string \<Rightarrow> string \<Rightarrow> path \<Rightarrow> metadata \<Rightarrow> bool \<Rightarrow> filesystem \<Rightarrow> bool \<times> filesystem" where
  "synthesize_separate_chapter e ttl text_content output_path metadata convert_to_mp3 fs =
     (if \<not> voice_loads e then (False, fs)
      else case synth_paragraphs (tts_voice e) (tts_sample_rate e) (paragraphs_of text_content)
                  (0 + SILENCE_PRE_SECONDS) of
             None \<Rightarrow> (False, fs(output_path \<mapsto> partial_file))
           | Some t \<Rightarrow>
              (let fs1 = fs(output_path \<mapsto>
                     \<lparr>vorbis = Some (fmupd ''artist'' [dict_get metadata ''artist'' ''Piper TTS'']
                                      (fmupd ''title'' [ttl] fmempty)),
                      seconds = Some (t + SILENCE_POST_SECONDS), id3_tags = None\<rparr>);
                   mp3_path = with_suffix output_path ''.mp3''
               in if convert_to_mp3 then
                    (case convert_ogg_to_mp3 e output_path mp3_path True fs1 of
                       (Raised, fs2) \<Rightarrow> (False, fs2)
                     | (Returned True, fs2) \<Rightarrow>
                         (True, save_id3 mp3_path
                            \<lparr>TIT2 = ttl, TPE1 = dict_get metadata ''artist'' ''Piper TTS'',
                             CHAP = []\<rparr> fs2)
                     | (Returned False, fs2) \<Rightarrow> (True, fs2))
                  else (True, fs1)))"

subsection \<open>Chapter mode\<close>

definition chapter_ogg_path :: "path \<Rightarrow> string \<Rightarrow> int \<Rightarrow> path" where
  "chapter_ogg_path input_path ttl idx =
     \<lparr>parent = parent input_path,
      stem = stem input_path @ ''_'' @ safe_filename ttl idx,
      suffix = ''.ogg''\<rparr>"

definition chapter_final_path :: "args \<Rightarrow> path \<Rightarrow> string \<Rightarrow> int \<Rightarrow> path" where
  "chapter_final_path a input_path ttl idx =
     (let out_ogg = chapter_ogg_path input_path ttl idx
      in if mp3 a then with_suffix out_ogg ''.mp3'' else out_ogg)"

text \<open>
  One chapter by number, as the direct mode and the numeric selection of the menu do
  it. The result is the exception flag, the messages and the filesystem.
\<close>

definition single_chapter ::
  "env \<Rightarrow> args \<Rightarrow> segment list \<Rightarrow> int \<Rightarrow> path \<Rightarrow> metadata \<Rightarrow> event list \<Rightarrow> filesystem \<Rightarrow>
     bool \<times> event list \<times> filesystem" where
  "single_chapter e a segments idx input_path metadata done_msgs fs =
     (let seg = segments ! nat (idx - 1);
          out_ogg = chapter_ogg_path input_path (fst seg) idx;
          final_out = chapter_final_path a input_path (fst seg) idx
      in if fs final_out \<noteq> None then (False, [Warning_output_exists final_out], fs)
         else case synthesize_separate_chapter e (fst seg) (snd seg) out_ogg metadata (mp3 a) fs of
                (True, fs1) \<Rightarrow> (False, done_msgs, fs1)
              | (False, fs1) \<Rightarrow> (True, [], fs1))"

text \<open>The loop of the split selection, \<open>for i, (title, text) in enumerate(segments, 1)\<close>.\<close>

fun split_chapters ::
  "env \<Rightarrow> args \<Rightarrow> path \<Rightarrow> metadata \<Rightarrow> nat \<Rightarrow> segment list \<Rightarrow> filesystem \<Rightarrow> event list \<times> filesystem" where
  "split_chapters e a input_path metadata i [] fs = ([], fs)"
| "split_chapters e a input_path metadata i (seg # segs) fs =
     (let ogg_chapter_path = chapter_ogg_path input_path (fst seg) (int i);
          mp3_chapter_path = with_suffix ogg_chapter_path ''.mp3'';
          final_output = (if mp3 a then mp3_chapter_path else ogg_chapter_path)
      in if fs final_output \<noteq> None then
           (let (msgs, fs') = split_chapters e a input_path metadata (Suc i) segs fs
            in (Skipping_chapter (fst seg) final_output # msgs, fs'))
         else
           (case synthesize_separate_chapter e (fst seg) (snd seg) ogg_chapter_path metadata (mp3 a) fs of
              (True, fs1) \<Rightarrow> split_chapters e a input_path metadata (Suc i) segs fs1
            | (False, fs1) \<Rightarrow>
                (let fs2 = (if fs1 ogg_chapter_path \<noteq> None then fs1(ogg_chapter_path := None) else fs1);
                     fs3 = (if fs2 mp3_chapter_path \<noteq> None then fs2(mp3_chapter_path := None) else fs2);
                     (msgs, fs') = split_chapters e a input_path metadata (Suc i) segs fs3
                 in (Error_synthesizing_chapter i (fst seg) # msgs, fs'))))"

text \<open>\<open>str.isdigit\<close> on one character, and \<open>int\<close> on a string of such characters.\<close>

definition is_digit :: "char \<Rightarrow> bool" where
  "is_digit c = (let n = (of_char c :: nat) in (48 \<le> n \<and> n \<le> 57) \<or> n \<in> {178, 179, 185})"

definition is_ascii_digit :: "char \<Rightarrow> bool" where
  "is_ascii_digit c = (let n = (of_char c :: nat) in 48 \<le> n \<and> n \<le> 57)"

definition interactive ::
  "env \<Rightarrow> args \<Rightarrow> segment list \<Rightarrow> path \<Rightarrow> metadata \<Rightarrow> filesystem \<Rightarrow> bool \<times> event list \<times> filesystem" where
  "interactive e a segments input_path metadata fs =
     (let num_chapters = length segments;
          selection = typed_selection e;
          started = [Interactive_started num_chapters]
      in if selection = ''a'' then
           (case text_to_ogg_file e segments (with_suffix input_path ''.ogg'') metadata fs of
              (None, fs1) \<Rightarrow> (True, started @ [Combined_synthesis], fs1)
            | (Some markers, fs1) \<Rightarrow>
                (if mp3 a then
                   (case convert_ogg_to_mp3 e (with_suffix input_path ''.ogg'')
                           (with_suffix input_path ''.mp3'') True fs1 of
                      (Raised, fs2) \<Rightarrow> (True, started @ [Combined_synthesis], fs2)
                    | (Returned r, fs2) \<Rightarrow> (False, started @ [Combined_synthesis], fs2))
                 else (False, started @ [Combined_synthesis], fs1)))
         else if selection = ''s'' then
           (let (msgs, fs1) = split_chapters e a input_path metadata 1 segments fs
            in (False, started @ msgs @ [Split_finished], fs1))
         else if selection \<noteq> [] \<and> list_all is_digit selection then
           (if \<not> list_all is_ascii_digit selection then (True, started, fs)
            else
              (let idx = int (nat_of_digits selection)
               in if 1 \<le> idx \<and> idx \<le> int num_chapters then
                    (case single_chapter e a segments idx input_path metadata
                            [Single_chapter_finished] fs of
                       (raised, msgs, fs1) \<Rightarrow> (raised, started @ msgs, fs1))
                  else (False, started @ [Warning_chapter_not_found idx num_chapters], fs)))
         else (False, started @ [Invalid_selection], fs))"

definition run_chapter_logic ::
  "env \<Rightarrow> args \<Rightarrow> segment list \<Rightarrow> pyval \<Rightarrow> path \<Rightarrow> metadata \<Rightarrow> filesystem \<Rightarrow>
     bool \<times> event list \<times> filesystem" where
  "run_chapter_logic e a segments cli_chapters_value input_path metadata fs =
     (let num_chapters = length segments
      in if isinstance_int cli_chapters_value then
           (let idx = int_value cli_chapters_value
            in if 1 \<le> idx \<and> idx \<le> int num_chapters then
                 (case single_chapter e a segments idx input_path metadata [] fs of
                    (raised, msgs, fs1) \<Rightarrow>
                      (raised, Direct_chapter idx (fst (segments ! nat (idx - 1))) # msgs, fs1))
               else
                 (case interactive e a segments input_path metadata fs of
                    (raised, msgs, fs1) \<Rightarrow>
                      (raised, Warning_chapter_not_found idx num_chapters # msgs, fs1)))
         else if cli_chapters_value = PyBool True then
           interactive e a segments input_path metadata fs
         else (False, [Continuing_standard], fs))"

subsection \<open>The main program\<close>

text \<open>The normalisation of \<open>args.chapters\<close>: the chapter value and the input file name.\<close>

definition normalize_chapters :: "env \<Rightarrow> args \<Rightarrow> filesystem \<Rightarrow> pyval \<times> string" where
  "normalize_chapters e a fs =
     (case chapters a of
        Given chapters_raw \<Rightarrow>
          (case int_of_str e chapters_raw of
             Some n \<Rightarrow> (PyInt n, input_file a)
           | None \<Rightarrow>
               (if fs (to_path e chapters_raw) \<noteq> None then
                  (if fs (to_path e (input_file a)) = None then (PyBool True, chapters_raw)
                   else (PyBool True, input_file a))
                else (PyBool True, input_file a)))
      | Bare_flag \<Rightarrow> (PyBool True, input_file a)
      | Absent \<Rightarrow> (PyBool False, input_file a))"

text \<open>\<open>x or y\<close> on an optional string: \<open>y\<close> when \<open>x\<close> is missing or empty.\<close>

definition or_else :: "string option \<Rightarrow> string \<Rightarrow> string" where
  "or_else x y = (case x of None \<Rightarrow> y | Some s \<Rightarrow> (if s = [] then y else s))"

text \<open>
  Everything before the dispatch: an exit code, or the chapter value, the input path,
  the segments and the metadata of the run.
\<close>

definition prepare ::
  "env \<Rightarrow> args \<Rightarrow> filesystem \<Rightarrow> nat + (pyval \<times> path \<times> segment list \<times> metadata)" where
  "prepare e a fs =
     (let (chapter_value, input_name) = normalize_chapters e a fs;
          input_path = to_path e input_name
      in if fs input_path = None then Inl 1
         else if \<not> voice_found e then Inl 1
         else if mp3 a \<and> \<not> ffmpeg_installed e then Inl 1
         else case extractor e input_path of
                Unsupported_extension \<Rightarrow> Inl 1
              | Parsing_raised \<Rightarrow> Inl 1
              | Extracted segments extracted_metadata \<Rightarrow>
                  (if segments = [] then Inl 0
                   else Inr (chapter_value, input_path, segments,
                          fmupd ''artist'' (or_else (fmlookup extracted_metadata ''artist'') ''Piper TTS'')
                            (fmupd ''title'' (or_else (fmlookup extracted_metadata ''title'')
                                                (title_from_path e input_path)) fmempty))))"

text \<open>
  The body of the \<open>try\<close> statement of \<open>main\<close>: whether an exception left it, the value
  of \<open>synthesize_needed\<close> at that moment, and the filesystem.
\<close>

definition main_try ::
  "env \<Rightarrow> args \<Rightarrow> segment list \<Rightarrow> metadata \<Rightarrow> path \<Rightarrow> path \<Rightarrow> filesystem \<Rightarrow>
     bool \<times> bool \<times> filesystem" where
  "main_try e a segments metadata ogg_path mp3_path fs =
     (let (markers0, synthesize_needed) =
            (if mp3 a \<and> fs ogg_path \<noteq> None then
               (case (case vorbis (the (fs ogg_path)) of
                        None \<Rightarrow> None
                      | Some audio \<Rightarrow> read_ogg_markers (float_of_str e) audio) of
                  Some markers \<Rightarrow> (markers, False)
                | None \<Rightarrow>
                    (calculate_approximate_markers segments (seconds (the (fs ogg_path))), False))
             else ([], True));
          (synthesized, fs1) =
            (if synthesize_needed then text_to_ogg_file e segments ogg_path metadata fs
             else (Some markers0, fs))
      in case synthesized of
           None \<Rightarrow> (True, synthesize_needed, fs1)
         | Some markers \<Rightarrow>
             (if mp3 a then
                (case convert_ogg_to_mp3 e ogg_path mp3_path synthesize_needed fs1 of
                   (Raised, fs2) \<Rightarrow> (True, synthesize_needed, fs2)
                 | (Returned True, fs2) \<Rightarrow>
                     (False, synthesize_needed,
                      (case write_mp3_chapter_tags markers metadata of
                         None \<Rightarrow> fs2
                       | Some tag \<Rightarrow> save_id3 mp3_path tag fs2))
                 | (Returned False, fs2) \<Rightarrow> (False, synthesize_needed, fs2))
              else (False, synthesize_needed, fs1)))"

text \<open>
  \<open>main\<close>: the exit status of the process, the messages and the filesystem it leaves.
  An uncaught exception ends the process with status 1, a plain return with status 0.
\<close>

definition main :: "env \<Rightarrow> args \<Rightarrow> filesystem \<Rightarrow> nat \<times> event list \<times> filesystem" where
  "main e a fs =
     (case prepare e a fs of
        Inl code \<Rightarrow> (code, [], fs)
      | Inr (chapter_value, input_path, segments, metadata) \<Rightarrow>
          (let ogg_path = with_suffix input_path ''.ogg'';
               mp3_path = with_suffix input_path ''.mp3''
           in if truthy chapter_value then
                (case run_chapter_logic e a segments chapter_value input_path metadata fs of
                   (raised, msgs, fs1) \<Rightarrow> (if raised then 1 else 0, msgs, fs1))
              else
                (let final_output_path = (if mp3 a then mp3_path else ogg_path)
                 in if fs final_output_path \<noteq> None then (1, [Output_exists_stop final_output_path], fs)
                    else
                      (case main_try e a segments metadata ogg_path mp3_path fs of
                         (False, synthesize_needed, fs1) \<Rightarrow> (0, [], fs1)
                       | (True, synthesize_needed, fs1) \<Rightarrow>
                           (let fs2 = (if fs1 ogg_path \<noteq> None \<and> synthesize_needed
                                       then fs1(ogg_path := None) else fs1);
                                fs3 = (if fs2 mp3_path \<noteq> None \<and> mp3 a
                                       then fs2(mp3_path := None) else fs2)
                            in (1, [Critical_error], fs3))))))"

section \<open>Properties\<close>

subsection \<open>Decimal rendering is injective\<close>

lemma digit_val_digit_char: "d < 10 \<Longrightarrow> digit_val (digit_char d) = d"
proof -
  assume "d < 10"
  then have "d \<in> {0, 1, 2, 3, 4, 5, 6, 7, 8, 9}" by auto
  then show ?thesis by (auto simp: digit_val_def digit_char_def)
qed

lemma nat_of_digits_snoc: "nat_of_digits (s @ [c]) = 10 * nat_of_digits s + digit_val c"
  by (simp add: nat_of_digits_def)

lemma nat_of_digits_str_nat: "nat_of_digits (str_nat n) = n"
proof (induction n rule: str_nat.induct)
  case (1 n)
  show ?case
  proof (cases "n < 10")
    case True
    then show ?thesis
      by (subst str_nat.simps) (simp add: nat_of_digits_def digit_val_digit_char)
  next
    case False
    with 1 have "nat_of_digits (str_nat (n div 10)) = n div 10" by simp
    with False show ?thesis
      by (subst str_nat.simps) (simp add: nat_of_digits_snoc digit_val_digit_char)
  qed
qed

lemma str_nat_inj: "str_nat m = str_nat n \<Longrightarrow> m = n"
  by (metis nat_of_digits_str_nat)

subsection \<open>Filename derivation applied to its own output\<close>

lemma dropWhile_none: "\<forall>c\<in>set s. \<not> P c \<Longrightarrow> dropWhile P s = s"
  by (cases s) auto

lemma strip_clean: "\<forall>c\<in>set s. \<not> is_space c \<Longrightarrow> strip s = s"
  by (simp add: strip_def dropWhile_none)

lemma collapse_ws_clean: "\<forall>c\<in>set s. \<not> is_space c \<Longrightarrow> collapse_ws s = s"
  by (induction s) auto

lemma underscore_class: "is_word (CHR ''_'')" "\<not> is_space (CHR ''_'')" "keep_char (CHR ''_'')"
  by (simp_all add: is_word_def is_space_def keep_char_def)

lemma set_strip: "set (strip s) \<subseteq> set s"
proof -
  have "set (strip s) \<subseteq> set (dropWhile is_space s)"
    unfolding strip_def using set_dropWhileD by fastforce
  also have "\<dots> \<subseteq> set s" using set_dropWhileD by fastforce
  finally show ?thesis .
qed

lemma collapse_ws_chars:
  "c \<in> set (collapse_ws s) \<Longrightarrow> \<not> is_space c \<and> (c = CHR ''_'' \<or> c \<in> set s)"
proof (induction s arbitrary: c rule: collapse_ws.induct)
  case 1
  then show ?case by simp
next
  case (2 d ds)
  show ?case
  proof (cases "is_space d")
    case True
    with 2 show ?thesis
      by (auto simp: underscore_class dest: set_dropWhileD)
  next
    case False
    with 2 show ?thesis by auto
  qed
qed

lemma safe_name_chars:
  assumes "c \<in> set (safe_name t)"
  shows "keep_char c \<and> \<not> is_space c"
proof -
  from assms have "c \<in> set (collapse_ws (strip (filter keep_char t)))"
    unfolding safe_name_def by (rule in_set_takeD)
  then have ns: "\<not> is_space c" and "c = CHR ''_'' \<or> c \<in> set (strip (filter keep_char t))"
    using collapse_ws_chars by blast+
  then have "c = CHR ''_'' \<or> c \<in> set (filter keep_char t)"
    using set_strip by blast
  then have "keep_char c" by (auto simp: underscore_class)
  with ns show ?thesis by simp
qed

lemma safe_name_of_clean:
  assumes "\<forall>c\<in>set s. keep_char c \<and> \<not> is_space c"
  shows "safe_name s = take 50 s"
proof -
  from assms have "filter keep_char s = s" by (simp add: filter_id_conv)
  moreover from assms have "strip s = s" by (simp add: strip_clean)
  moreover from assms have "collapse_ws s = s" by (simp add: collapse_ws_clean)
  ultimately show ?thesis by (simp add: safe_name_def)
qed

lemma safe_name_idem: "safe_name (safe_name t) = safe_name t"
proof -
  have "safe_name (safe_name t) = take 50 (safe_name t)"
    by (rule safe_name_of_clean) (simp add: safe_name_chars)
  also have "\<dots> = safe_name t" by (simp add: safe_name_def)
  finally show ?thesis .
qed

lemma digit_char_class: "d < 10 \<Longrightarrow> keep_char (digit_char d) \<and> \<not> is_space (digit_char d)"
proof -
  assume "d < 10"
  then have "d \<in> {0, 1, 2, 3, 4, 5, 6, 7, 8, 9}" by auto
  then show ?thesis by (auto simp: digit_char_def keep_char_def is_word_def is_space_def)
qed

lemma str_nat_chars: "c \<in> set (str_nat n) \<Longrightarrow> keep_char c \<and> \<not> is_space c"
proof (induction n rule: str_nat.induct)
  case (1 n)
  show ?case
  proof (cases "n < 10")
    case True
    with 1(2) show ?thesis
      by (subst (asm) str_nat.simps) (auto simp: digit_char_class)
  next
    case False
    with 1 show ?thesis
      by (subst (asm) (2) str_nat.simps) (auto simp: digit_char_class)
  qed
qed

lemma fmt_02d_chars: "c \<in> set (fmt_02d i) \<Longrightarrow> keep_char c \<and> \<not> is_space c"
  by (auto simp: fmt_02d_def str_int_def keep_char_def is_word_def is_space_def
      dest: str_nat_chars split: if_splits)

lemma safe_filename_chars: "c \<in> set (safe_filename t i) \<Longrightarrow> keep_char c \<and> \<not> is_space c"
  using fmt_02d_chars safe_name_chars underscore_class
  by (auto simp: safe_filename_def)

text \<open>
  Claim C9, as the code has it. \<open>safe_filename\<close> puts the two-digit index in front of the
  sanitised name on every call. Applied to the sanitised name it produced, it returns
  the same filename again: stripping, collapsing and truncating change nothing in a name
  that went through them. Applied to its whole output, it keeps that output (cut to 50
  characters) and puts the index in front a second time.
\<close>

theorem safe_filename_reapplied:
  "safe_filename (safe_name t) i = safe_filename t i \<and>
   safe_filename (safe_filename t i) i = fmt_02d i @ ''_'' @ take 50 (safe_filename t i)"
proof
  show "safe_filename (safe_name t) i = safe_filename t i"
    by (simp add: safe_filename_def safe_name_idem)
  have "safe_name (safe_filename t i) = take 50 (safe_filename t i)"
    by (rule safe_name_of_clean) (simp add: safe_filename_chars)
  then show "safe_filename (safe_filename t i) i = fmt_02d i @ ''_'' @ take 50 (safe_filename t i)"
    by (simp add: safe_filename_def)
qed

text \<open>
  Claim C9 as stated fails: for the title \<open>Intro\<close> and index 1 the derivation gives
  \<open>01_Intro\<close>, and applied to that it gives \<open>01_01_Intro\<close>.
\<close>

theorem safe_filename_not_idempotent:
  "safe_filename (safe_filename ''Intro'' 1) 1 \<noteq> safe_filename ''Intro'' 1"
  by code_simp

subsection \<open>The Vorbis comment codec\<close>

lemma time_key_inj: "time_key i = time_key j \<longleftrightarrow> i = j"
  by (auto simp: time_key_def dest: str_nat_inj)

lemma title_key_inj: "title_key i = title_key j \<longleftrightarrow> i = j"
  by (auto simp: title_key_def dest: str_nat_inj)

lemma time_key_neq_title_key: "time_key i \<noteq> title_key j" "title_key j \<noteq> time_key i"
  by (simp_all add: time_key_def title_key_def)

lemma chapter_keys_prefix: "startswith (time_key i) ''chapter_''" "startswith (title_key i) ''chapter_''"
  by (simp_all add: startswith_def time_key_def title_key_def)

lemma plain_keys_prefix: "\<not> startswith ''title'' ''chapter_''" "\<not> startswith ''artist'' ''chapter_''"
  by (simp_all add: startswith_def)

lemma plain_keys_neq:
  "''title'' \<noteq> time_key j" "''artist'' \<noteq> time_key j"
  "''title'' \<noteq> title_key j" "''artist'' \<noteq> title_key j"
  by (simp_all add: time_key_def title_key_def)

lemma write_marker_fields_time:
  "fmlookup (write_marker_fields fs i ms a) (time_key j) =
     (if i \<le> j \<and> j < i + length ms then Some [fs (time_seconds (ms ! (j - i)))]
      else fmlookup a (time_key j))"
proof (induction ms arbitrary: i a)
  case Nil
  then show ?case by auto
next
  case (Cons m ms)
  let ?a = "fmupd (title_key i) [title m] (fmupd (time_key i) [fs (time_seconds m)] a)"
  have ih: "fmlookup (write_marker_fields fs (Suc i) ms ?a) (time_key j) =
     (if Suc i \<le> j \<and> j < Suc i + length ms then Some [fs (time_seconds (ms ! (j - Suc i)))]
      else fmlookup ?a (time_key j))"
    by (rule Cons.IH)
  have step: "fmlookup (write_marker_fields fs i (m # ms) a) (time_key j) =
     (if Suc i \<le> j \<and> j < Suc i + length ms then Some [fs (time_seconds (ms ! (j - Suc i)))]
      else fmlookup ?a (time_key j))"
    by (simp only: write_marker_fields.simps ih)
  have old: "fmlookup ?a (time_key j) =
     (if j = i then Some [fs (time_seconds m)] else fmlookup a (time_key j))"
    by (auto simp: time_key_inj title_key_inj time_key_neq_title_key)
  have nth: "Suc i \<le> j \<Longrightarrow> (m # ms) ! (j - i) = ms ! (j - Suc i)"
    by (simp add: Suc_diff_le)
  show ?case
    unfolding step old using nth by auto
qed

lemma write_marker_fields_title:
  "fmlookup (write_marker_fields fs i ms a) (title_key j) =
     (if i \<le> j \<and> j < i + length ms then Some [title (ms ! (j - i))]
      else fmlookup a (title_key j))"
proof (induction ms arbitrary: i a)
  case Nil
  then show ?case by auto
next
  case (Cons m ms)
  let ?a = "fmupd (title_key i) [title m] (fmupd (time_key i) [fs (time_seconds m)] a)"
  have ih: "fmlookup (write_marker_fields fs (Suc i) ms ?a) (title_key j) =
     (if Suc i \<le> j \<and> j < Suc i + length ms then Some [title (ms ! (j - Suc i))]
      else fmlookup ?a (title_key j))"
    by (rule Cons.IH)
  have step: "fmlookup (write_marker_fields fs i (m # ms) a) (title_key j) =
     (if Suc i \<le> j \<and> j < Suc i + length ms then Some [title (ms ! (j - Suc i))]
      else fmlookup ?a (title_key j))"
    by (simp only: write_marker_fields.simps ih)
  have old: "fmlookup ?a (title_key j) =
     (if j = i then Some [title m] else fmlookup a (title_key j))"
    by (auto simp: time_key_inj title_key_inj time_key_neq_title_key)
  have nth: "Suc i \<le> j \<Longrightarrow> (m # ms) ! (j - i) = ms ! (j - Suc i)"
    by (simp add: Suc_diff_le)
  show ?case
    unfolding step old using nth by auto
qed

lemma read_loop_run:
  assumes "\<forall>j. i \<le> j \<and> j < n \<longrightarrow>
             fmlookup audio (time_key j) = Some (tv j # tvs j) \<and>
             fmlookup audio (title_key j) = Some (nv j # nvs j)"
    and "fmlookup audio (time_key n) = None \<or> fmlookup audio (title_key n) = None"
    and "i \<le> n"
  shows "read_loop fp audio i acc =
           (if \<exists>j. i \<le> j \<and> j < n \<and> fp (tv j) = None then None
            else Some (acc @ map (\<lambda>j. \<lparr>time_seconds = the (fp (tv j)), title = nv j\<rparr>) [i..<n]))"
  using assms
proof (induction "n - i" arbitrary: i acc)
  case 0
  then have "i = n" by simp
  with "0.prems"(2) show ?case
    by (subst read_loop.simps) auto
next
  case (Suc d)
  then have lt: "i < n" by simp
  with Suc.prems(1) have here: "fmlookup audio (time_key i) = Some (tv i # tvs i)"
    "fmlookup audio (title_key i) = Some (nv i # nvs i)"
    by auto
  show ?case
  proof (cases "fp (tv i)")
    case None
    with lt have "\<exists>j. i \<le> j \<and> j < n \<and> fp (tv j) = None" by auto
    with None here show ?thesis
      by (subst read_loop.simps) simp
  next
    case (Some t)
    have d: "d = n - Suc i" using Suc.hyps(2) by simp
    have pre: "\<forall>j. Suc i \<le> j \<and> j < n \<longrightarrow>
             fmlookup audio (time_key j) = Some (tv j # tvs j) \<and>
             fmlookup audio (title_key j) = Some (nv j # nvs j)"
      using Suc.prems(1) by auto
    have le: "Suc i \<le> n" using lt by simp
    have ex: "(\<exists>j. i \<le> j \<and> j < n \<and> fp (tv j) = None) = (\<exists>j. Suc i \<le> j \<and> j < n \<and> fp (tv j) = None)"
      using Some by (metis Suc_leI le_neq_implies_less option.distinct(1) Suc_leD)
    have step: "read_loop fp audio i acc =
        read_loop fp audio (Suc i) (acc @ [\<lparr>time_seconds = t, title = nv i\<rparr>])"
      using here Some by (subst read_loop.simps) simp
    show ?thesis
      unfolding step Suc.hyps(1)[OF d pre Suc.prems(2) le] ex
      using lt Some by (auto simp: upt_conv_Cons)
  qed
qed

lemma read_ogg_markers_run:
  assumes "\<forall>j<n. fmlookup audio (time_key j) = Some (tv j # tvs j) \<and>
                  fmlookup audio (title_key j) = Some (nv j # nvs j)"
    and "fmlookup audio (time_key n) = None \<or> fmlookup audio (title_key n) = None"
  shows "read_ogg_markers fp audio =
           (if n = 0 \<or> (\<exists>j<n. fp (tv j) = None) then None
            else Some (map (\<lambda>j. \<lparr>time_seconds = the (fp (tv j)), title = nv j\<rparr>) [0..<n]))"
proof -
  have "read_loop fp audio 0 [] =
           (if \<exists>j. 0 \<le> j \<and> j < n \<and> fp (tv j) = None then None
            else Some ([] @ map (\<lambda>j. \<lparr>time_seconds = the (fp (tv j)), title = nv j\<rparr>) [0..<n]))"
    by (rule read_loop_run) (use assms in auto)
  then show ?thesis
    by (auto simp: read_ogg_markers_def)
qed

lemma key_literals:
  "time_key 0 = ''chapter_start_time_0''" "title_key 0 = ''chapter_title_0''"
  "time_key (Suc 0) = ''chapter_start_time_1''" "title_key (Suc 0) = ''chapter_title_1''"
  "time_key 2 = ''chapter_start_time_2''" "title_key 2 = ''chapter_title_2''"
  "time_key 3 = ''chapter_start_time_3''" "title_key 3 = ''chapter_title_3''"
  by (simp_all add: time_key_def title_key_def str_nat.simps digit_char_def)

text \<open>
  Claim C4, as the code has it. Let \<open>n\<close> be the first index at which the start-time
  field or the title field is missing, so that both fields are present at every index
  below \<open>n\<close>. \<open>read_ogg_markers\<close> looks at the indices \<open>0, ..., n - 1\<close> only. It
  reports no markers (\<open>None\<close>) exactly when \<open>n = 0\<close> or the start time at one of these
  indices does not parse as a number; otherwise it returns the \<open>n\<close> markers of these
  indices in order. One entry alone is returned as one marker, and what the store
  holds beyond the first gap is never read.
\<close>

theorem read_ogg_markers_contiguous_prefix:
  assumes "\<forall>j<n. fmlookup audio (time_key j) = Some (tv j # tvs j) \<and>
                  fmlookup audio (title_key j) = Some (nv j # nvs j)"
    and "fmlookup audio (time_key n) = None \<or> fmlookup audio (title_key n) = None"
  shows "read_ogg_markers float_parse audio =
           (if n = 0 \<or> (\<exists>j<n. float_parse (tv j) = None) then None
            else Some (map (\<lambda>j. \<lparr>time_seconds = the (float_parse (tv j)), title = nv j\<rparr>) [0..<n]))"
  using assms by (rule read_ogg_markers_run)

text \<open>
  The store with the indices 0, 1 and 3: the two markers at 0 and 1 are returned, the
  entry at 3 is not.
\<close>

theorem read_ogg_markers_contiguous_prefix_witness:
  "read_ogg_markers
     (\<lambda>s. if s = ''0.5'' then Some (1 / 2) else if s = ''3.2'' then Some (16 / 5)
           else if s = ''9.0'' then Some 9 else None)
     (fmupd (title_key 3) [''Three''] (fmupd (time_key 3) [''9.0'']
       (fmupd (title_key 1) [''One''] (fmupd (time_key 1) [''3.2'']
         (fmupd (title_key 0) [''Zero''] (fmupd (time_key 0) [''0.5''] fmempty))))))
   = Some [\<lparr>time_seconds = 1 / 2, title = ''Zero''\<rparr>, \<lparr>time_seconds = 16 / 5, title = ''One''\<rparr>]"
proof -
  let ?fp = "\<lambda>s. if s = ''0.5'' then Some (1 / 2 :: rat) else if s = ''3.2'' then Some (16 / 5)
           else if s = ''9.0'' then Some 9 else None"
  let ?a = "fmupd (title_key 3) [''Three''] (fmupd (time_key 3) [''9.0'']
       (fmupd (title_key 1) [''One''] (fmupd (time_key 1) [''3.2'']
         (fmupd (title_key 0) [''Zero''] (fmupd (time_key 0) [''0.5''] fmempty)))))"
  let ?tv = "\<lambda>j::nat. if j = 0 then ''0.5'' else ''3.2''"
  let ?nv = "\<lambda>j::nat. if j = 0 then ''Zero'' else ''One''"
  have h1: "\<forall>j<2. fmlookup ?a (time_key j) = Some (?tv j # (\<lambda>_. []) j) \<and>
                  fmlookup ?a (title_key j) = Some (?nv j # (\<lambda>_. []) j)"
    by (auto simp: less_2_cases_iff key_literals)
  have h2: "fmlookup ?a (time_key 2) = None \<or> fmlookup ?a (title_key 2) = None"
    by (simp add: key_literals)
  have ok: "\<not> ((2::nat) = 0 \<or> (\<exists>j<2. ?fp (?tv j) = None))"
    by (auto simp: less_2_cases_iff simp del: not_None_eq)
  have ms: "map (\<lambda>j. \<lparr>time_seconds = the (?fp (?tv j)), title = ?nv j\<rparr>) [0..<2] =
      [\<lparr>time_seconds = 1 / 2, title = ''Zero''\<rparr>, \<lparr>time_seconds = 16 / 5, title = ''One''\<rparr>]"
    by (simp add: upt_rec)
  have "read_ogg_markers ?fp ?a =
      (if (2::nat) = 0 \<or> (\<exists>j<2. ?fp (?tv j) = None) then None
       else Some (map (\<lambda>j. \<lparr>time_seconds = the (?fp (?tv j)), title = ?nv j\<rparr>) [0..<2]))"
    by (rule read_ogg_markers_contiguous_prefix [OF h1 h2])
  also have "\<dots> = Some [\<lparr>time_seconds = 1 / 2, title = ''Zero''\<rparr>, \<lparr>time_seconds = 16 / 5, title = ''One''\<rparr>]"
    by (simp only: ok ms if_False)
  finally show ?thesis .
qed

text \<open>
  Claim C4 as stated fails: a store that holds the single entry at index 0 has fewer
  than two consecutive entries, and the read path returns that one marker instead of
  reporting that no markers are available.
\<close>

theorem read_ogg_markers_single_entry:
  "read_ogg_markers (\<lambda>s. if s = ''0.5'' then Some (1 / 2) else None)
     (fmupd (title_key 0) [''Zero''] (fmupd (time_key 0) [''0.5''] fmempty)) \<noteq> None"
  by (simp add: read_ogg_markers_def read_loop.simps key_literals)

text \<open>
  Claim C1, as the code has it. \<open>float_str\<close> and \<open>float_parse\<close> stand for Python's
  \<open>str\<close> and \<open>float\<close>, which invert each other on the offsets written. Whatever the
  comment block held before, writing a non-empty marker list and reading it back
  returns the same markers in the same order; writing the empty list and reading it
  back reports no markers (\<open>None\<close>), not the empty list.
\<close>

theorem write_then_read_markers:
  assumes "\<forall>m\<in>set markers. float_parse (float_str (time_seconds m)) = Some (time_seconds m)"
  shows "read_ogg_markers float_parse (write_ogg_markers float_str markers metadata audio) =
           (if markers = [] then None else Some markers)"
proof -
  let ?a = "write_ogg_markers float_str markers metadata audio"
  let ?n = "length markers"
  have t: "fmlookup ?a (time_key j) =
      (if j < ?n then Some [float_str (time_seconds (markers ! j))] else None)" for j
    by (simp add: write_ogg_markers_def Let_def write_marker_fields_time chapter_keys_prefix plain_keys_prefix plain_keys_neq)
  have n: "fmlookup ?a (title_key j) =
      (if j < ?n then Some [title (markers ! j)] else None)" for j
    by (simp add: write_ogg_markers_def Let_def write_marker_fields_title chapter_keys_prefix plain_keys_prefix plain_keys_neq)
  have "read_ogg_markers float_parse ?a =
           (if ?n = 0 \<or> (\<exists>j<?n. float_parse (float_str (time_seconds (markers ! j))) = None) then None
            else Some (map (\<lambda>j. \<lparr>time_seconds = the (float_parse (float_str (time_seconds (markers ! j)))),
                        title = title (markers ! j)\<rparr>) [0..<?n]))"
    by (rule read_ogg_markers_run[where tvs = "\<lambda>_. []" and nvs = "\<lambda>_. []"]) (simp_all add: t n)
  moreover have "float_parse (float_str (time_seconds (markers ! j))) = Some (time_seconds (markers ! j))"
    if "j < ?n" for j using assms that by simp
  moreover have "map (\<lambda>j. \<lparr>time_seconds = the (float_parse (float_str (time_seconds (markers ! j)))),
                        title = title (markers ! j)\<rparr>) [0..<?n] = markers"
    by (rule nth_equalityI) (simp_all add: calculation(2))
  ultimately show ?thesis by auto
qed


theorem write_then_read_markers_witness:
  "read_ogg_markers
     (\<lambda>s. if s = ''0.5'' then Some (1 / 2) else if s = ''5.5'' then Some (11 / 2) else None)
     (write_ogg_markers (\<lambda>r. if r = 1 / 2 then ''0.5'' else ''5.5'')
        [\<lparr>time_seconds = 1 / 2, title = ''Intro''\<rparr>, \<lparr>time_seconds = 11 / 2, title = ''Body''\<rparr>]
        fmempty
        (fmupd (title_key 2) [''Old''] (fmupd (time_key 2) [''99.0''] fmempty)))
   = Some [\<lparr>time_seconds = 1 / 2, title = ''Intro''\<rparr>, \<lparr>time_seconds = 11 / 2, title = ''Body''\<rparr>]"
proof -
  let ?ms = "[\<lparr>time_seconds = 1 / 2, title = ''Intro''\<rparr>, \<lparr>time_seconds = 11 / 2, title = ''Body''\<rparr>]"
  let ?fp = "\<lambda>s. if s = ''0.5'' then Some (1 / 2 :: rat) else if s = ''5.5'' then Some (11 / 2) else None"
  let ?fs = "\<lambda>r :: rat. if r = 1 / 2 then ''0.5'' else ''5.5''"
  have h: "\<forall>m \<in> set ?ms. ?fp (?fs (time_seconds m)) = Some (time_seconds m)"
    by simp
  show ?thesis
    using write_then_read_markers [OF h, of fmempty "fmupd (title_key 2) [''Old''] (fmupd (time_key 2) [''99.0''] fmempty)"]
    by simp
qed

text \<open>
  Claim C1 as stated fails for the marker count 0: the read path does not return the
  empty list that was written, it reports that no markers are available.
\<close>

theorem write_then_read_no_markers:
  "read_ogg_markers (\<lambda>s. None) (write_ogg_markers (\<lambda>r. ''0.0'') [] fmempty fmempty) \<noteq> Some []"
  by (simp add: read_ogg_markers_def split: option.split)

subsection \<open>The timeline of streaming synthesis\<close>

lemma write_chunks_exact:
  "0 < sr \<Longrightarrow> write_chunks sr cs t = Some (t + of_nat (sum_list cs) / of_nat sr)"
proof (induction cs arbitrary: t)
  case Nil
  then show ?case by simp
next
  case (Cons n ns)
  have "t + of_nat n / of_nat sr + of_nat (sum_list ns) / of_nat sr
      = t + (of_nat (sum_list (n # ns)) :: rat) / of_nat sr"
    by (simp add: add_divide_distrib)
  with Cons show ?case by simp
qed

lemma write_chunks_mono:
  "write_chunks sr cs t = Some t' \<Longrightarrow> t \<le> t' \<and> (0 < sum_list cs \<longrightarrow> t < t')"
proof (induction cs arbitrary: t)
  case Nil
  then show ?case by simp
next
  case (Cons n ns)
  then have sr: "0 < sr" by (auto split: if_splits)
  with Cons.prems have "write_chunks sr ns (t + of_nat n / of_nat sr) = Some t'"
    by simp
  then have ih: "t + of_nat n / of_nat sr \<le> t'"
    "0 < sum_list ns \<longrightarrow> t + of_nat n / of_nat sr < t'"
    using Cons.IH by blast+
  have nn: "(0::rat) \<le> of_nat n / of_nat sr" by simp
  have pos: "0 < n \<Longrightarrow> (0::rat) < of_nat n / of_nat sr" using sr by simp
  show ?case
  proof (cases "0 < n")
    case True
    with ih nn pos show ?thesis by auto
  next
    case False
    with ih nn show ?thesis by auto
  qed
qed

lemma synth_paragraphs_mono:
  "synth_paragraphs voice sr ps t = Some t' \<Longrightarrow>
     t \<le> t' \<and> ((\<exists>p\<in>set ps. \<forall>cs. voice p = Some cs \<longrightarrow> 0 < sum_list cs) \<longrightarrow> t < t')"
proof (induction ps arbitrary: t)
  case Nil
  then show ?case by simp
next
  case (Cons p ps)
  from Cons.prems obtain cs t1 where v: "voice p = Some cs"
    and w: "write_chunks sr cs t = Some t1"
    and r: "synth_paragraphs voice sr ps t1 = Some t'"
    by (auto split: option.splits)
  from write_chunks_mono[OF w] have a: "t \<le> t1" "0 < sum_list cs \<longrightarrow> t < t1" by blast+
  from Cons.IH[OF r] have b: "t1 \<le> t'"
    "(\<exists>p\<in>set ps. \<forall>cs. voice p = Some cs \<longrightarrow> 0 < sum_list cs) \<longrightarrow> t1 < t'" by blast+
  show ?case
  proof (intro conjI impI)
    show "t \<le> t'" using a(1) b(1) by linarith
  next
    assume "\<exists>q\<in>set (p # ps). \<forall>cs. voice q = Some cs \<longrightarrow> 0 < sum_list cs"
    then consider "\<forall>cs'. voice p = Some cs' \<longrightarrow> 0 < sum_list cs'"
      | "\<exists>q\<in>set ps. \<forall>cs. voice q = Some cs \<longrightarrow> 0 < sum_list cs"
      by auto
    then show "t < t'"
    proof cases
      case 1
      with v have "0 < sum_list cs" by simp
      with a(2) have "t < t1" by simp
      with b(1) show ?thesis by linarith
    next
      case 2
      with b(2) have "t1 < t'" by simp
      with a(1) show ?thesis by linarith
    qed
  qed
qed

lemma synth_paragraphs_total:
  "0 < sr \<Longrightarrow> \<forall>p. voice p \<noteq> None \<Longrightarrow> \<exists>t'. synth_paragraphs voice sr ps t = Some t'"
proof (induction ps arbitrary: t)
  case Nil
  then show ?case by simp
next
  case (Cons p ps)
  from Cons.prems(2) obtain cs where "voice p = Some cs" by auto
  with Cons show ?case by (simp add: write_chunks_exact)
qed

lemma strip_Nil: "strip [] = []"
  by (simp add: strip_def)

lemma paragraphs_of_nonempty:
  "paragraphs_of txt \<noteq> []" "txt \<noteq> [] \<Longrightarrow> p \<in> set (paragraphs_of txt) \<Longrightarrow> p \<noteq> []"
  by (auto simp: paragraphs_of_def Let_def strip_Nil split: if_splits)

lemma synth_segments_markers:
  assumes "synth_segments voice sr segs ms t = Some (res, t')"
  shows "\<exists>ms'. res = ms @ ms' \<and> map title ms' = map fst segs \<and> t \<le> t' \<and>
           (\<forall>m\<in>set ms'. t \<le> time_seconds m \<and> time_seconds m \<le> t') \<and>
           sorted (map time_seconds ms') \<and>
           ((\<forall>p cs. p \<noteq> [] \<longrightarrow> voice p = Some cs \<longrightarrow> 0 < sum_list cs) \<and>
            (\<forall>seg\<in>set segs. snd seg \<noteq> []) \<longrightarrow>
              sorted_wrt (<) (map time_seconds ms') \<and> (\<forall>m\<in>set ms'. time_seconds m < t'))"
  using assms
proof (induction segs arbitrary: ms t)
  case Nil
  then show ?case by simp
next
  case (Cons seg segs)
  let ?m = "\<lparr>time_seconds = t, title = fst seg\<rparr>"
  from Cons.prems obtain t1 where
    p: "synth_paragraphs voice sr (paragraphs_of (snd seg)) t = Some t1" and
    r: "synth_segments voice sr segs (ms @ [?m]) t1 = Some (res, t')"
    by (auto split: option.splits)
  from synth_paragraphs_mono[OF p] have le1: "t \<le> t1" and
    lt1: "(\<exists>p\<in>set (paragraphs_of (snd seg)). \<forall>cs. voice p = Some cs \<longrightarrow> 0 < sum_list cs) \<longrightarrow> t < t1"
    by blast+
  from Cons.IH[OF r] obtain ms' where
    res: "res = (ms @ [?m]) @ ms'" and
    ttl: "map title ms' = map fst segs" and
    le2: "t1 \<le> t'" and
    bnd: "\<forall>m\<in>set ms'. t1 \<le> time_seconds m \<and> time_seconds m \<le> t'" and
    srt: "sorted (map time_seconds ms')" and
    strict: "(\<forall>p cs. p \<noteq> [] \<longrightarrow> voice p = Some cs \<longrightarrow> 0 < sum_list cs) \<and>
            (\<forall>seg\<in>set segs. snd seg \<noteq> []) \<longrightarrow>
              sorted_wrt (<) (map time_seconds ms') \<and> (\<forall>m\<in>set ms'. time_seconds m < t')"
    by blast
  have prod: "t < t1"
    if "\<forall>p cs. p \<noteq> [] \<longrightarrow> voice p = Some cs \<longrightarrow> 0 < sum_list cs" and "snd seg \<noteq> []"
  proof -
    obtain q where q: "q \<in> set (paragraphs_of (snd seg))"
      using paragraphs_of_nonempty(1)[of "snd seg"] by (cases "paragraphs_of (snd seg)") auto
    with that(2) have "q \<noteq> []" by (rule paragraphs_of_nonempty(2))
    with that(1) have "\<forall>cs. voice q = Some cs \<longrightarrow> 0 < sum_list cs" by blast
    with q lt1 show ?thesis by blast
  qed
  show ?case
  proof (intro exI[of _ "?m # ms'"] conjI)
    show "res = ms @ ?m # ms'" using res by simp
    show "map title (?m # ms') = map fst (seg # segs)" using ttl by simp
    show "t \<le> t'" using le1 le2 by simp
    have up: "t \<le> time_seconds m \<and> time_seconds m \<le> t'" if "m \<in> set ms'" for m
    proof -
      from bnd that have "t1 \<le> time_seconds m" "time_seconds m \<le> t'" by blast+
      with le1 show ?thesis by linarith
    qed
    have "t \<le> t'" using le1 le2 by linarith
    then show "\<forall>m\<in>set (?m # ms'). t \<le> time_seconds m \<and> time_seconds m \<le> t'"
      using up by simp
    show "sorted (map time_seconds (?m # ms'))"
      using srt up by simp
    show "(\<forall>p cs. p \<noteq> [] \<longrightarrow> voice p = Some cs \<longrightarrow> 0 < sum_list cs) \<and>
            (\<forall>seg\<in>set (seg # segs). snd seg \<noteq> []) \<longrightarrow>
              sorted_wrt (<) (map time_seconds (?m # ms')) \<and> (\<forall>m\<in>set (?m # ms'). time_seconds m < t')"
    proof
      assume h: "(\<forall>p cs. p \<noteq> [] \<longrightarrow> voice p = Some cs \<longrightarrow> 0 < sum_list cs) \<and>
            (\<forall>seg\<in>set (seg # segs). snd seg \<noteq> [])"
      then have lt: "t < t1" using prod by simp
      from h strict have s: "sorted_wrt (<) (map time_seconds ms')"
        "\<forall>m\<in>set ms'. time_seconds m < t'" by simp_all
      have "t < time_seconds m" if "m \<in> set ms'" for m
      proof -
        from bnd that have "t1 \<le> time_seconds m" by blast
        with lt show ?thesis by linarith
      qed
      then have "\<forall>m\<in>set ms'. t < time_seconds m" by blast
      moreover from lt le2 have "t < t'" by linarith
      ultimately show "sorted_wrt (<) (map time_seconds (?m # ms')) \<and> (\<forall>m\<in>set (?m # ms'). time_seconds m < t')"
        using s by simp
    qed
  qed
qed

lemma synth_segments_total:
  "0 < sr \<Longrightarrow> \<forall>p. voice p \<noteq> None \<Longrightarrow> \<exists>r. synth_segments voice sr segs ms t = Some r"
proof (induction segs arbitrary: ms t)
  case Nil
  then show ?case by simp
next
  case (Cons seg segs)
  from synth_paragraphs_total[OF Cons.prems] obtain t1 where
    "synth_paragraphs voice sr (paragraphs_of (snd seg)) t = Some t1" by blast
  with Cons show ?case by simp
qed

text \<open>
  Claim C2. Whenever \<open>text_to_ogg\<close> returns, it has recorded exactly one marker per
  segment, with the segments' titles in segment order, and the offsets never decrease.
  If moreover the engine yields at least one sample for every non-empty text and no
  segment has an empty text, the offsets increase strictly. It does return when the
  sample rate is positive and the engine does not raise.
\<close>

theorem timeline_markers:
  "(text_to_ogg voice sample_rate segments = Some (markers, duration) \<longrightarrow>
      map title markers = map fst segments \<and> length markers = length segments \<and>
      sorted (map time_seconds markers) \<and>
      ((\<forall>p cs. p \<noteq> [] \<longrightarrow> voice p = Some cs \<longrightarrow> 0 < sum_list cs) \<and>
       (\<forall>seg\<in>set segments. snd seg \<noteq> []) \<longrightarrow> sorted_wrt (<) (map time_seconds markers))) \<and>
   (0 < sample_rate \<and> (\<forall>p. voice p \<noteq> None) \<longrightarrow>
      (\<exists>ms t. text_to_ogg voice sample_rate segments = Some (ms, t)))"
proof (intro conjI impI)
  assume "text_to_ogg voice sample_rate segments = Some (markers, duration)"
  then obtain t where "synth_segments voice sample_rate segments [] (0 + SILENCE_PRE_SECONDS) = Some (markers, t)"
    by (auto simp: text_to_ogg_def split: option.splits)
  from synth_segments_markers[OF this] have
    ttl: "map title markers = map fst segments" and
    srt: "sorted (map time_seconds markers)" and
    strict: "(\<forall>p cs. p \<noteq> [] \<longrightarrow> voice p = Some cs \<longrightarrow> 0 < sum_list cs) \<and>
       (\<forall>seg\<in>set segments. snd seg \<noteq> []) \<longrightarrow> sorted_wrt (<) (map time_seconds markers)"
    by auto
  show "map title markers = map fst segments" by (rule ttl)
  show "length markers = length segments" using ttl by (rule map_eq_imp_length_eq)
  show "sorted (map time_seconds markers)" by (rule srt)
  show "sorted_wrt (<) (map time_seconds markers)"
    if "(\<forall>p cs. p \<noteq> [] \<longrightarrow> voice p = Some cs \<longrightarrow> 0 < sum_list cs) \<and>
       (\<forall>seg\<in>set segments. snd seg \<noteq> [])"
    using that strict by blast
next
  assume "0 < sample_rate \<and> (\<forall>p. voice p \<noteq> None)"
  then obtain r where "synth_segments voice sample_rate segments [] (0 + SILENCE_PRE_SECONDS) = Some r"
    using synth_segments_total by blast
  then show "\<exists>ms t. text_to_ogg voice sample_rate segments = Some (ms, t)"
    by (cases r) (simp add: text_to_ogg_def)
qed


theorem timeline_markers_witness:
  "\<exists>ms t. text_to_ogg (\<lambda>p. Some [length p * 2205]) 22050 [(''One'', ''ab''), (''Two'', ''c'')] = Some (ms, t) \<and>
      map title ms = [''One'', ''Two''] \<and> length ms = 2 \<and>
      sorted (map time_seconds ms) \<and> sorted_wrt (<) (map time_seconds ms)"
proof -
  let ?v = "\<lambda>p :: string. Some [length p * 2205]"
  let ?segs = "[(''One'', ''ab''), (''Two'', ''c'')]"
  have run: "0 < (22050::nat) \<and> (\<forall>p. ?v p \<noteq> None)" by simp
  have prod: "(\<forall>p cs. p \<noteq> [] \<longrightarrow> ?v p = Some cs \<longrightarrow> 0 < sum_list cs) \<and>
       (\<forall>seg\<in>set ?segs. snd seg \<noteq> [])" by auto
  from run timeline_markers [of ?v 22050 ?segs] obtain ms t where
    r: "text_to_ogg ?v 22050 ?segs = Some (ms, t)" by blast
  with prod timeline_markers [of ?v 22050 ?segs ms t] have
    "map title ms = map fst ?segs \<and> length ms = length ?segs \<and>
      sorted (map time_seconds ms) \<and> sorted_wrt (<) (map time_seconds ms)"
    by blast
  with r show ?thesis by auto
qed

subsection \<open>The end-to-end scenario\<close>

lemma split_acc_no_blank:
  "\<forall>i. Suc i < length s \<longrightarrow> \<not> (s ! i = CHR 0x0A \<and> s ! Suc i = CHR 0x0A) \<Longrightarrow>
     split_acc cur s = [rev cur @ s]"
proof (induction cur s rule: split_acc.induct)
  case (1 cur a b cs)
  from "1.prems" have "Suc 0 < length (a # b # cs) \<longrightarrow>
      \<not> ((a # b # cs) ! 0 = CHR 0x0A \<and> (a # b # cs) ! Suc 0 = CHR 0x0A)"
    by blast
  then have nb: "\<not> (a = CHR 0x0A \<and> b = CHR 0x0A)" by simp
  have "\<forall>i. Suc i < length (b # cs) \<longrightarrow> \<not> ((b # cs) ! i = CHR 0x0A \<and> (b # cs) ! Suc i = CHR 0x0A)"
  proof (intro allI impI)
    fix i assume "Suc i < length (b # cs)"
    then have "Suc (Suc i) < length (a # b # cs)" by simp
    with "1.prems" have "\<not> ((a # b # cs) ! Suc i = CHR 0x0A \<and> (a # b # cs) ! Suc (Suc i) = CHR 0x0A)"
      by blast
    then show "\<not> ((b # cs) ! i = CHR 0x0A \<and> (b # cs) ! Suc i = CHR 0x0A)" by simp
  qed
  with nb "1.IH" have "split_acc (a # cur) (b # cs) = [rev (a # cur) @ b # cs]" by blast
  with nb show ?case by auto
qed simp_all

lemma paragraphs_of_no_blank:
  assumes "\<forall>i. Suc i < length s \<longrightarrow> \<not> (s ! i = CHR 0x0A \<and> s ! Suc i = CHR 0x0A)"
  shows "paragraphs_of s = [s]"
proof -
  from assms have "split_blank s = [s]"
    by (simp add: split_blank_def split_acc_no_blank)
  then show ?thesis by (simp add: paragraphs_of_def Let_def)
qed








subsection \<open>Rounding to doubles\<close>

lemma int_bounds_powi:
  fixes p :: int
  assumes "0 < p"
  shows "(2::rat) powi (bitlen p - 1) \<le> of_int p" "(of_int p :: rat) < 2 powi (bitlen p)"
proof -
  from bitlen_bounds[OF assms] have lo: "2 ^ nat (bitlen p - 1) \<le> p" and hi: "p < 2 ^ nat (bitlen p)"
    by blast+
  have b1: "1 \<le> bitlen p" using assms bitlen_eq_zero_iff[of p] bitlen_nonneg[of p] by linarith
  from lo have "(of_int (2 ^ nat (bitlen p - 1)) :: rat) \<le> of_int p" by (simp only: of_int_le_iff)
  then show "(2::rat) powi (bitlen p - 1) \<le> of_int p"
    using b1 by (simp add: power_int_def)
  from hi have "(of_int p :: rat) < of_int (2 ^ nat (bitlen p))" by (simp only: of_int_less_iff)
  then show "(of_int p :: rat) < 2 powi (bitlen p)"
    using b1 by (simp add: power_int_def)
qed

lemma floor_log2_bounds:
  assumes "0 < x"
  shows "2 powi (floor_log2 x) \<le> x \<and> x < 2 powi (floor_log2 x + 1)"
proof -
  obtain p q where pq: "quotient_of x = (p, q)" by (cases "quotient_of x")
  then have q: "0 < q" and x: "x = of_int p / of_int q"
    by (simp_all add: quotient_of_denom_pos quotient_of_div)
  have p: "0 < p"
    using assms q x by (simp add: zero_less_divide_iff)
  let ?e = "bitlen p - bitlen q"
  note bp = int_bounds_powi[OF p] and bq = int_bounds_powi[OF q]
  have ppos: "(0::rat) \<le> of_int p" using p by simp
  have "(of_int p :: rat) / of_int q < 2 powi (bitlen p) / 2 powi (bitlen q - 1)"
    using ppos bp(2) _ bq(1) by (rule frac_less) simp
  moreover have "(2::rat) powi (bitlen p) / 2 powi (bitlen q - 1) = 2 powi (?e + 1)"
    by (simp add: power_int_diff power_int_add)
  ultimately have up: "x < 2 powi (?e + 1)"
    by (simp add: x)
  have "(2::rat) powi (bitlen p - 1) / 2 powi (bitlen q) < of_int p / of_int q"
    using _ bp(1) _ bq(2) by (rule frac_less2) (simp_all add: q)
  moreover have "(2::rat) powi (bitlen p - 1) / 2 powi (bitlen q) = 2 powi (?e - 1)"
    by (simp add: power_int_diff power_int_add)
  ultimately have lo: "2 powi (?e - 1) < x"
    by (simp add: x)
  show ?thesis
  proof (cases "2 powi ?e \<le> x")
    case True
    with up pq show ?thesis by (simp add: floor_log2_def)
  next
    case False
    then have "x < 2 powi ?e" by simp
    with lo False pq show ?thesis by (simp add: floor_log2_def)
  qed
qed

lemma floor_log2_eqI:
  assumes "0 < x" and "2 powi e \<le> x" and "x < 2 powi (e + 1)"
  shows "floor_log2 x = e"
proof -
  let ?r = "floor_log2 x"
  from floor_log2_bounds[OF assms(1)] have r: "2 powi ?r \<le> x" "x < 2 powi (?r + 1)" by blast+
  have a: "(2::rat) powi e < 2 powi (?r + 1)" using assms(2) r(2) by linarith
  have "e < ?r + 1"
  proof (rule ccontr)
    assume "\<not> e < ?r + 1"
    then have "(2::rat) powi (?r + 1) \<le> 2 powi e"
      by (intro power_int_increasing) simp_all
    with a show False by linarith
  qed
  moreover have b: "(2::rat) powi ?r < 2 powi (e + 1)" using assms(3) r(1) by linarith
  have "?r < e + 1"
  proof (rule ccontr)
    assume "\<not> ?r < e + 1"
    then have "(2::rat) powi (e + 1) \<le> 2 powi ?r"
      by (intro power_int_increasing) simp_all
    with b show False by linarith
  qed
  ultimately show ?thesis by linarith
qed

text \<open>
  The value of \<open>fl\<close> at a number whose binary exponent \<open>e\<close> is known: the multiple of
  \<open>2^(e-52)\<close> nearest to it.
\<close>

lemma fl_value:
  assumes "2 powi e \<le> \<bar>x\<bar>" and "\<bar>x\<bar> < 2 powi (e + 1)" and "- 1022 \<le> e"
    and "round_half_even (x / 2 powi (e - 52)) = m"
  shows "fl x = of_int m * 2 powi (e - 52)"
proof -
  have "(0::rat) < 2 powi e" by simp
  with assms(1) have pos: "0 < \<bar>x\<bar>" by linarith
  then have nz: "x \<noteq> 0" by simp
  from floor_log2_eqI[OF pos assms(1,2)] have "floor_log2 \<bar>x\<bar> = e" .
  with nz assms(3,4) show ?thesis by (simp add: fl_def Let_def max_def)
qed

lemma floor_rat_numeral: "\<lfloor>(numeral a :: rat) / numeral b\<rfloor> = numeral a div numeral b"
  using floor_divide_of_int_eq[of "numeral a" "numeral b", where ?'a = rat] by simp

subsection \<open>Approximate markers\<close>

lemma approx_loop_closed:
  "approx_loop tts n segs t ms =
     ms @ map (\<lambda>i. \<lparr>time_seconds =
                      foldl (\<lambda>t seg. fl (t + fl (tts * fl (of_nat (length (snd seg)) / of_nat n))))
                        t (take i segs),
                    title = fst (segs ! i)\<rparr>) [0..<length segs]"
proof (induction segs arbitrary: t ms)
  case Nil
  then show ?case by simp
next
  case (Cons seg segs)
  let ?f = "\<lambda>t (seg :: segment). fl (t + fl (tts * fl (of_nat (length (snd seg)) / of_nat n)))"
  have idx: "[0..<length (seg # segs)] = 0 # map Suc [0..<length segs]"
    by (simp only: list.size(4) map_Suc_upt upt_conv_Cons[OF zero_less_Suc] Suc_eq_plus1[symmetric] One_nat_def add_Suc_right add_0_right)
  have "approx_loop tts n (seg # segs) t ms =
      approx_loop tts n segs (?f t seg) (ms @ [\<lparr>time_seconds = t, title = fst seg\<rparr>])"
    by (simp add: Let_def)
  also have "\<dots> = (ms @ [\<lparr>time_seconds = t, title = fst seg\<rparr>]) @
      map (\<lambda>i. \<lparr>time_seconds = foldl ?f (?f t seg) (take i segs),
                 title = fst (segs ! i)\<rparr>) [0..<length segs]"
    by (rule Cons.IH)
  also have "\<dots> = ms @ map (\<lambda>i. \<lparr>time_seconds = foldl ?f t (take i (seg # segs)),
                 title = fst ((seg # segs) ! i)\<rparr>) [0..<length (seg # segs)]"
    unfolding idx by simp
  finally show ?case .
qed

lemma total_chars_zero:
  "sum_list (map (\<lambda>seg :: segment. length (snd seg)) segs) \<noteq> 0 \<Longrightarrow> segs \<noteq> []"
  by auto

lemma approx_three_segments:
  assumes "length a = 10" and "length b = 30" and "length c = 60"
    and "0 < fl (D - fl (SILENCE_PRE_SECONDS + SILENCE_POST_SECONDS))"
  shows "map time_seconds (calculate_approximate_markers [(ta, a), (tb, b), (tc, c)] (Some D)) =
     [SILENCE_PRE_SECONDS,
      fl (SILENCE_PRE_SECONDS +
          fl (fl (D - fl (SILENCE_PRE_SECONDS + SILENCE_POST_SECONDS)) * fl (10 / 100))),
      fl (fl (SILENCE_PRE_SECONDS +
              fl (fl (D - fl (SILENCE_PRE_SECONDS + SILENCE_POST_SECONDS)) * fl (10 / 100))) +
          fl (fl (D - fl (SILENCE_PRE_SECONDS + SILENCE_POST_SECONDS)) * fl (30 / 100)))]"
proof -
  from assms(4) have m: "max 0 (fl (D - fl (SILENCE_PRE_SECONDS + SILENCE_POST_SECONDS))) =
      fl (D - fl (SILENCE_PRE_SECONDS + SILENCE_POST_SECONDS))"
    "fl (D - fl (SILENCE_PRE_SECONDS + SILENCE_POST_SECONDS)) \<noteq> 0"
    by simp_all
  show ?thesis
    unfolding calculate_approximate_markers_def Let_def option.case m
    using assms(1-3) m(2) by (simp add: Let_def)
qed


lemma example_offsets:
  "fl (SILENCE_PRE_SECONDS + SILENCE_POST_SECONDS) = 11 / 2"
  "fl (13 / 2 - 11 / 2) = 1"
  "fl (10 / 100) = 3602879701896397 / 36028797018963968"
  "fl (1 * (3602879701896397 / 36028797018963968)) = 3602879701896397 / 36028797018963968"
  "fl (SILENCE_PRE_SECONDS + 3602879701896397 / 36028797018963968) = 5404319552844595 / 9007199254740992"
  "fl (30 / 100) = 5404319552844595 / 18014398509481984"
  "fl (1 * (5404319552844595 / 18014398509481984)) = 5404319552844595 / 18014398509481984"
  "fl (5404319552844595 / 9007199254740992 + 5404319552844595 / 18014398509481984) = 2026619832316723 / 2251799813685248"
  "fl (40 / 100) = 3602879701896397 / 9007199254740992"
  "fl (1 * (3602879701896397 / 9007199254740992)) = 3602879701896397 / 9007199254740992"
  "fl (SILENCE_PRE_SECONDS + 3602879701896397 / 9007199254740992) = 8106479329266893 / 9007199254740992"
proof -
  show "fl (SILENCE_PRE_SECONDS + SILENCE_POST_SECONDS) = 11 / 2"
    by (rule fl_value[where e = 2 and m = 6192449487634432, THEN trans])
       (simp_all add: round_half_even_def Let_def floor_rat_numeral
          SILENCE_PRE_SECONDS_def SILENCE_POST_SECONDS_def)
  show "fl (13 / 2 - 11 / 2) = 1"
    by (rule fl_value[where e = 0 and m = 4503599627370496, THEN trans])
       (simp_all add: round_half_even_def Let_def floor_rat_numeral
          SILENCE_PRE_SECONDS_def SILENCE_POST_SECONDS_def)
  show "fl (10 / 100) = 3602879701896397 / 36028797018963968"
    by (rule fl_value[where e = "- 4" and m = 7205759403792794, THEN trans])
       (simp_all add: round_half_even_def Let_def floor_rat_numeral
          SILENCE_PRE_SECONDS_def SILENCE_POST_SECONDS_def)
  show "fl (1 * (3602879701896397 / 36028797018963968)) = 3602879701896397 / 36028797018963968"
    by (rule fl_value[where e = "- 4" and m = 7205759403792794, THEN trans])
       (simp_all add: round_half_even_def Let_def floor_rat_numeral
          SILENCE_PRE_SECONDS_def SILENCE_POST_SECONDS_def)
  show "fl (SILENCE_PRE_SECONDS + 3602879701896397 / 36028797018963968) = 5404319552844595 / 9007199254740992"
    by (rule fl_value[where e = "- 1" and m = 5404319552844595, THEN trans])
       (simp_all add: round_half_even_def Let_def floor_rat_numeral
          SILENCE_PRE_SECONDS_def SILENCE_POST_SECONDS_def)
  show "fl (30 / 100) = 5404319552844595 / 18014398509481984"
    by (rule fl_value[where e = "- 2" and m = 5404319552844595, THEN trans])
       (simp_all add: round_half_even_def Let_def floor_rat_numeral
          SILENCE_PRE_SECONDS_def SILENCE_POST_SECONDS_def)
  show "fl (1 * (5404319552844595 / 18014398509481984)) = 5404319552844595 / 18014398509481984"
    by (rule fl_value[where e = "- 2" and m = 5404319552844595, THEN trans])
       (simp_all add: round_half_even_def Let_def floor_rat_numeral
          SILENCE_PRE_SECONDS_def SILENCE_POST_SECONDS_def)
  show "fl (5404319552844595 / 9007199254740992 + 5404319552844595 / 18014398509481984) = 2026619832316723 / 2251799813685248"
    by (rule fl_value[where e = "- 1" and m = 8106479329266892, THEN trans])
       (simp_all add: round_half_even_def Let_def floor_rat_numeral
          SILENCE_PRE_SECONDS_def SILENCE_POST_SECONDS_def)
  show "fl (40 / 100) = 3602879701896397 / 9007199254740992"
    by (rule fl_value[where e = "- 2" and m = 7205759403792794, THEN trans])
       (simp_all add: round_half_even_def Let_def floor_rat_numeral
          SILENCE_PRE_SECONDS_def SILENCE_POST_SECONDS_def)
  show "fl (1 * (3602879701896397 / 9007199254740992)) = 3602879701896397 / 9007199254740992"
    by (rule fl_value[where e = "- 2" and m = 7205759403792794, THEN trans])
       (simp_all add: round_half_even_def Let_def floor_rat_numeral
          SILENCE_PRE_SECONDS_def SILENCE_POST_SECONDS_def)
  show "fl (SILENCE_PRE_SECONDS + 3602879701896397 / 9007199254740992) = 8106479329266893 / 9007199254740992"
    by (rule fl_value[where e = "- 1" and m = 8106479329266893, THEN trans])
       (simp_all add: round_half_even_def Let_def floor_rat_numeral
          SILENCE_PRE_SECONDS_def SILENCE_POST_SECONDS_def)
qed

text \<open>
  Claim C6, as the code has it. With \<open>tts_duration = max(0, D - (lead_in + lead_out))\<close>
  computed on doubles, the estimate is the empty list exactly when the segments hold no
  character at all or \<open>tts_duration\<close> is 0. Otherwise it has one marker per segment, with
  the segment's title; the first offset is \<open>lead_in\<close>, and each further offset is the
  one before it plus \<open>tts_duration\<close> times the character share of the segment before
  it, where the share, the product and the sum are each rounded to a double. For
  texts of 10, 30 and 60 characters the offsets are \<open>lead_in\<close>,
  \<open>lead_in + D' * (10/100)\<close> and that second offset plus \<open>D' * (30/100)\<close>, with
  \<open>D' = D - (lead_in + lead_out)\<close> and every operation rounded.
\<close>

theorem approximate_markers:
  "calculate_approximate_markers segments (Some D) =
     (let tts_duration = max 0 (fl (D - fl (SILENCE_PRE_SECONDS + SILENCE_POST_SECONDS)));
          total_chars = sum_list (map (\<lambda>seg. length (snd seg)) segments)
      in if total_chars = 0 \<or> tts_duration = 0 then []
         else map (\<lambda>i. \<lparr>time_seconds =
                          foldl (\<lambda>t seg. fl (t + fl (tts_duration *
                                   fl (of_nat (length (snd seg)) / of_nat total_chars))))
                            SILENCE_PRE_SECONDS (take i segments),
                        title = fst (segments ! i)\<rparr>) [0..<length segments]) \<and>
   (calculate_approximate_markers segments (Some D) = [] \<longleftrightarrow>
      sum_list (map (\<lambda>seg. length (snd seg)) segments) = 0 \<or>
      max 0 (fl (D - fl (SILENCE_PRE_SECONDS + SILENCE_POST_SECONDS))) = 0) \<and>
   (length a = 10 \<and> length b = 30 \<and> length c = 60 \<and>
    0 < fl (D - fl (SILENCE_PRE_SECONDS + SILENCE_POST_SECONDS)) \<longrightarrow>
      map time_seconds (calculate_approximate_markers [(ta, a), (tb, b), (tc, c)] (Some D)) =
        (let D' = fl (D - fl (SILENCE_PRE_SECONDS + SILENCE_POST_SECONDS))
         in [SILENCE_PRE_SECONDS,
             fl (SILENCE_PRE_SECONDS + fl (D' * fl (10 / 100))),
             fl (fl (SILENCE_PRE_SECONDS + fl (D' * fl (10 / 100))) + fl (D' * fl (30 / 100)))]))"
proof (intro conjI impI)
  show closed: "calculate_approximate_markers segments (Some D) =
     (let tts_duration = max 0 (fl (D - fl (SILENCE_PRE_SECONDS + SILENCE_POST_SECONDS)));
          total_chars = sum_list (map (\<lambda>seg. length (snd seg)) segments)
      in if total_chars = 0 \<or> tts_duration = 0 then []
         else map (\<lambda>i. \<lparr>time_seconds =
                          foldl (\<lambda>t seg. fl (t + fl (tts_duration *
                                   fl (of_nat (length (snd seg)) / of_nat total_chars))))
                            SILENCE_PRE_SECONDS (take i segments),
                        title = fst (segments ! i)\<rparr>) [0..<length segments])"
    unfolding calculate_approximate_markers_def Let_def option.case approx_loop_closed
    by simp
  show "calculate_approximate_markers segments (Some D) = [] \<longleftrightarrow>
      sum_list (map (\<lambda>seg. length (snd seg)) segments) = 0 \<or>
      max 0 (fl (D - fl (SILENCE_PRE_SECONDS + SILENCE_POST_SECONDS))) = 0"
    unfolding closed Let_def using total_chars_zero[of segments] by auto
next
  assume h: "length a = 10 \<and> length b = 30 \<and> length c = 60 \<and>
    0 < fl (D - fl (SILENCE_PRE_SECONDS + SILENCE_POST_SECONDS))"
  then have "map time_seconds (calculate_approximate_markers [(ta, a), (tb, b), (tc, c)] (Some D)) =
     [SILENCE_PRE_SECONDS,
      fl (SILENCE_PRE_SECONDS +
          fl (fl (D - fl (SILENCE_PRE_SECONDS + SILENCE_POST_SECONDS)) * fl (10 / 100))),
      fl (fl (SILENCE_PRE_SECONDS +
              fl (fl (D - fl (SILENCE_PRE_SECONDS + SILENCE_POST_SECONDS)) * fl (10 / 100))) +
          fl (fl (D - fl (SILENCE_PRE_SECONDS + SILENCE_POST_SECONDS)) * fl (30 / 100)))]"
    by (intro approx_three_segments) simp_all
  then show "map time_seconds (calculate_approximate_markers [(ta, a), (tb, b), (tc, c)] (Some D)) =
        (let D' = fl (D - fl (SILENCE_PRE_SECONDS + SILENCE_POST_SECONDS))
         in [SILENCE_PRE_SECONDS,
             fl (SILENCE_PRE_SECONDS + fl (D' * fl (10 / 100))),
             fl (fl (SILENCE_PRE_SECONDS + fl (D' * fl (10 / 100))) + fl (D' * fl (30 / 100)))])"
    by (simp only: Let_def)
qed

text \<open>
  A file of 6.5 s: \<open>D' = 1\<close>, and the offsets are the doubles 0.5, 0.6 and
  0.8999999999999999.
\<close>

theorem approximate_markers_witness:
  "map time_seconds (calculate_approximate_markers
      [(''A'', replicate 10 (CHR ''a'')), (''B'', replicate 30 (CHR ''b'')), (''C'', replicate 60 (CHR ''c''))]
      (Some (13 / 2))) =
   [1 / 2, 5404319552844595 / 9007199254740992, 2026619832316723 / 2251799813685248]"
proof -
  have h: "length (replicate 10 (CHR ''a'')) = 10 \<and> length (replicate 30 (CHR ''b'')) = 30 \<and>
        length (replicate 60 (CHR ''c'')) = 60 \<and>
        0 < fl (13 / 2 - fl (SILENCE_PRE_SECONDS + SILENCE_POST_SECONDS))"
    unfolding example_offsets by simp
  note t = approximate_markers [of "[]" "13 / 2" "replicate 10 (CHR ''a'')" "replicate 30 (CHR ''b'')"
      "replicate 60 (CHR ''c'')" "''A''" "''B''" "''C''", THEN conjunct2, THEN conjunct2, THEN mp, OF h]
  show ?thesis
    using t unfolding Let_def example_offsets by (simp add: SILENCE_PRE_SECONDS_def)
qed

text \<open>
  Claim C6 as stated fails: for the lengths 10, 30 and 60 and a file of 6.5 s the third
  offset is 0.8999999999999999. That is neither the number
  \<open>lead_in + D' * (40/100) = 0.9\<close> nor the double 0.9 that this expression gives when it
  is computed on doubles.
\<close>

theorem approximate_third_offset_differs:
  "map time_seconds (calculate_approximate_markers
      [(''A'', replicate 10 (CHR ''a'')), (''B'', replicate 30 (CHR ''b'')), (''C'', replicate 60 (CHR ''c''))]
      (Some (13 / 2))) ! 2 \<noteq>
     SILENCE_PRE_SECONDS + (13 / 2 - SILENCE_PRE_SECONDS - SILENCE_POST_SECONDS) * (40 / 100) \<and>
   map time_seconds (calculate_approximate_markers
      [(''A'', replicate 10 (CHR ''a'')), (''B'', replicate 30 (CHR ''b'')), (''C'', replicate 60 (CHR ''c''))]
      (Some (13 / 2))) ! 2 \<noteq>
     fl (SILENCE_PRE_SECONDS + fl (fl (13 / 2 - fl (SILENCE_PRE_SECONDS + SILENCE_POST_SECONDS)) * fl (40 / 100)))"
proof -
  have h: "0 < fl (13 / 2 - fl (SILENCE_PRE_SECONDS + SILENCE_POST_SECONDS))"
    unfolding example_offsets by simp
  have "map time_seconds (calculate_approximate_markers
      [(''A'', replicate 10 (CHR ''a'')), (''B'', replicate 30 (CHR ''b'')), (''C'', replicate 60 (CHR ''c''))]
      (Some (13 / 2))) =
     [SILENCE_PRE_SECONDS,
      fl (SILENCE_PRE_SECONDS +
          fl (fl (13 / 2 - fl (SILENCE_PRE_SECONDS + SILENCE_POST_SECONDS)) * fl (10 / 100))),
      fl (fl (SILENCE_PRE_SECONDS +
              fl (fl (13 / 2 - fl (SILENCE_PRE_SECONDS + SILENCE_POST_SECONDS)) * fl (10 / 100))) +
          fl (fl (13 / 2 - fl (SILENCE_PRE_SECONDS + SILENCE_POST_SECONDS)) * fl (30 / 100)))]"
    by (rule approx_three_segments[OF _ _ _ h]) simp_all
  then have third: "map time_seconds (calculate_approximate_markers
      [(''A'', replicate 10 (CHR ''a'')), (''B'', replicate 30 (CHR ''b'')), (''C'', replicate 60 (CHR ''c''))]
      (Some (13 / 2))) ! 2 = 2026619832316723 / 2251799813685248"
    unfolding example_offsets by simp
  have claimed: "fl (SILENCE_PRE_SECONDS +
      fl (fl (13 / 2 - fl (SILENCE_PRE_SECONDS + SILENCE_POST_SECONDS)) * fl (40 / 100))) = 8106479329266893 / 9007199254740992"
    unfolding example_offsets ..
  show ?thesis
    unfolding third claimed
    by (simp add: SILENCE_PRE_SECONDS_def SILENCE_POST_SECONDS_def)
qed

subsection \<open>MP3 chapter frames\<close>

lemma chap_loop_closed:
  "chap_loop markers k ms tags =
     tags @ map (\<lambda>i. \<lparr>element_id = ''b'' @ [CHR 0x27] @ ''chp_'' @ str_nat (k + i + 1) @ [CHR 0x27],
                      start_time = py_int (fl (time_seconds (ms ! i) * 1000)),
                      end_time = (if k + i + 1 < length markers
                                  then py_int (fl (time_seconds (markers ! (k + i + 1)) * 1000)) else 0),
                      start_offset = 0, end_offset = 0,
                      sub_frames = []\<rparr>) [0..<length ms]"
proof (induction ms arbitrary: k tags)
  case Nil
  then show ?case by simp
next
  case (Cons m ms)
  have idx: "[0..<length (m # ms)] = 0 # map Suc [0..<length ms]"
    by (simp only: list.size(4) map_Suc_upt upt_conv_Cons[OF zero_less_Suc] Suc_eq_plus1[symmetric] One_nat_def add_Suc_right add_0_right)
  show ?case
    unfolding idx by (simp add: Let_def Cons.IH)
qed

lemma chap_ids_distinct:
  "distinct (map (\<lambda>i. ''b'' @ [CHR 0x27] @ ''chp_'' @ str_nat (i + 1) @ [CHR 0x27]) [0..<n])"
proof -
  have "inj_on (\<lambda>i. ''b'' @ [CHR 0x27] @ ''chp_'' @ str_nat (i + 1) @ [CHR 0x27]) (set [0..<n])"
    by (rule inj_onI) (auto dest: str_nat_inj)
  then show ?thesis by (simp add: distinct_map)
qed

lemma chap_frames_writable:
  "list_all chap_writable (chap_loop markers 0 markers []) \<longleftrightarrow>
     (\<forall>m\<in>set markers. fits_uint32 (py_int (fl (time_seconds m * 1000))))"
proof
  assume a: "list_all chap_writable (chap_loop markers 0 markers [])"
  show "\<forall>m\<in>set markers. fits_uint32 (py_int (fl (time_seconds m * 1000)))"
  proof
    fix m assume "m \<in> set markers"
    then obtain i where i: "i < length markers" "markers ! i = m"
      by (auto simp: in_set_conv_nth)
    from a i(1) have "chap_writable (chap_loop markers 0 markers [] ! i)"
      by (simp add: list_all_length chap_loop_closed)
    with i show "fits_uint32 (py_int (fl (time_seconds m * 1000)))"
      by (simp add: chap_loop_closed chap_writable_def)
  qed
next
  assume a: "\<forall>m\<in>set markers. fits_uint32 (py_int (fl (time_seconds m * 1000)))"
  have z: "fits_uint32 0" by (simp add: fits_uint32_def)
  have "chap_writable (chap_loop markers 0 markers [] ! i)" if "i < length markers" for i
  proof -
    from a that have "fits_uint32 (py_int (fl (time_seconds (markers ! i) * 1000)))" by simp
    moreover have "fits_uint32 (py_int (fl (time_seconds (markers ! (i + 1)) * 1000)))"
      if "i + 1 < length markers"
      using a that by simp
    ultimately show ?thesis
      using that z by (simp add: chap_loop_closed chap_writable_def)
  qed
  then show "list_all chap_writable (chap_loop markers 0 markers [])"
    by (simp add: list_all_length chap_loop_closed)
qed

lemma example_products:
  "fl 500 = 500"
  "fl (450359962737049625 / 140737488355328) = 3200"
  "fl 9000 = 9000"
  "fl (125 / 16) = 125 / 16"
proof -
  show "fl (500) = 500"
    by (rule fl_value[where e = 8 and m = 8796093022208000, THEN trans])
       (simp_all add: round_half_even_def Let_def floor_rat_numeral)
  show "fl (450359962737049625 / 140737488355328) = 3200"
    by (rule fl_value[where e = 11 and m = 7036874417766400, THEN trans])
       (simp_all add: round_half_even_def Let_def floor_rat_numeral)
  show "fl (9000) = 9000"
    by (rule fl_value[where e = 13 and m = 4947802324992000, THEN trans])
       (simp_all add: round_half_even_def Let_def floor_rat_numeral)
  show "fl (125 / 16) = 125 / 16"
    by (rule fl_value[where e = 2 and m = 8796093022208000, THEN trans])
       (simp_all add: round_half_even_def Let_def floor_rat_numeral)
qed


text \<open>
  The offsets 0.6, 1.001 and 0.7999999999999999, as doubles: the rounding of the product
  decides the millisecond (600, 1000 and 799).
\<close>

lemma rounded_product_examples:
  "py_int (fl (5404319552844595 / 9007199254740992 * 1000)) = 600"
  "py_int (fl (2254051613498933 / 2251799813685248 * 1000)) = 1000"
  "py_int (fl (7205759403792793 / 9007199254740992 * 1000)) = 799"
proof -
  have "fl (5404319552844595 / 9007199254740992 * 1000) = 600"
    by (rule fl_value[where e = 9 and m = 5277655813324800, THEN trans])
       (simp_all add: round_half_even_def Let_def floor_rat_numeral)
  then show "py_int (fl (5404319552844595 / 9007199254740992 * 1000)) = 600"
    by (simp only:) (simp add: py_int_def floor_rat_numeral)
  have "fl (2254051613498933 / 2251799813685248 * 1000) = 8804889115230207 / 8796093022208"
    by (rule fl_value[where e = 9 and m = 8804889115230207, THEN trans])
       (simp_all add: round_half_even_def Let_def floor_rat_numeral)
  then show "py_int (fl (2254051613498933 / 2251799813685248 * 1000)) = 1000"
    by (simp only:) (simp add: py_int_def floor_rat_numeral)
  have "fl (7205759403792793 / 9007199254740992 * 1000) = 7036874417766399 / 8796093022208"
    by (rule fl_value[where e = 9 and m = 7036874417766399, THEN trans])
       (simp_all add: round_half_even_def Let_def floor_rat_numeral)
  then show "py_int (fl (7205759403792793 / 9007199254740992 * 1000)) = 799"
    by (simp only:) (simp add: py_int_def floor_rat_numeral)
qed

lemma py_int_numeral: "py_int (numeral n) = numeral n"
  by (simp add: py_int_def)

lemma example_ids:
  "str_nat (Suc 0) = ''1''" "str_nat (Suc (Suc 0)) = ''2''" "str_nat (Suc (Suc (Suc 0))) = ''3''"
  by (simp_all add: str_nat.simps digit_char_def)

text \<open>
  Claim C7, as the code has it. Saving succeeds exactly when the start of every marker,
  in milliseconds, fits an unsigned 32-bit integer; otherwise nothing is written. When
  it succeeds there is one chapter frame per marker, in marker order, with the
  identifiers \<open>b'chp_1'\<close>, \<open>b'chp_2'\<close>, ..., which are pairwise distinct. The start of a
  frame is the double product of the offset and 1000 cut off toward zero (\<open>int\<close>, not
  \<open>round\<close>), the end is the start of the next frame, and 0 for the last frame. Markers
  at the doubles 0.5, 3.2 and 9.0 give the ends 3200, 9000 and 0.
\<close>

theorem mp3_chapter_frames:
  "(write_mp3_chapter_tags markers metadata \<noteq> None \<longleftrightarrow>
      (\<forall>m\<in>set markers. 0 \<le> py_int (fl (time_seconds m * 1000)) \<and>
                        py_int (fl (time_seconds m * 1000)) < 2 ^ 32)) \<and>
   (write_mp3_chapter_tags markers metadata = Some tag \<longrightarrow>
      CHAP tag =
        map (\<lambda>i. \<lparr>element_id = ''b'' @ [CHR 0x27] @ ''chp_'' @ str_nat (i + 1) @ [CHR 0x27],
                  start_time = (let ms = fl (time_seconds (markers ! i) * 1000)
                                in if 0 \<le> ms then \<lfloor>ms\<rfloor> else \<lceil>ms\<rceil>),
                  end_time = (if i + 1 < length markers then start_time (CHAP tag ! (i + 1)) else 0),
                  start_offset = 0, end_offset = 0,
                  sub_frames = []\<rparr>) [0..<length markers] \<and>
      distinct (map element_id (CHAP tag))) \<and>
   map_option (\<lambda>tag. map end_time (CHAP tag))
     (write_mp3_chapter_tags
        [\<lparr>time_seconds = 1 / 2, title = ta\<rparr>,
         \<lparr>time_seconds = 3602879701896397 / 1125899906842624, title = tb\<rparr>,
         \<lparr>time_seconds = 9, title = tc\<rparr>] metadata) = Some [3200, 9000, 0]"
proof (intro conjI impI)
  let ?f = "\<lambda>i. \<lparr>element_id = ''b'' @ [CHR 0x27] @ ''chp_'' @ str_nat (i + 1) @ [CHR 0x27],
               start_time = py_int (fl (time_seconds (markers ! i) * 1000)),
               end_time = (if i + 1 < length markers
                           then py_int (fl (time_seconds (markers ! (i + 1)) * 1000)) else 0),
               start_offset = 0, end_offset = 0,
               sub_frames = []\<rparr>"
  have frames: "chap_loop markers 0 markers [] = map ?f [0..<length markers]"
    by (simp add: chap_loop_closed)
  show "write_mp3_chapter_tags markers metadata \<noteq> None \<longleftrightarrow>
      (\<forall>m\<in>set markers. 0 \<le> py_int (fl (time_seconds m * 1000)) \<and>
                        py_int (fl (time_seconds m * 1000)) < 2 ^ 32)"
    using chap_frames_writable[of markers]
    by (simp add: write_mp3_chapter_tags_def Let_def fits_uint32_def)
  {
    assume s: "write_mp3_chapter_tags markers metadata = Some tag"
    then have closed: "CHAP tag = map ?f [0..<length markers]"
      by (auto simp: write_mp3_chapter_tags_def Let_def frames split: if_splits)
    have st: "start_time (CHAP tag ! j) = py_int (fl (time_seconds (markers ! j) * 1000))"
      if "j < length markers" for j
      using that by (simp add: closed)
    show "CHAP tag =
        map (\<lambda>i. \<lparr>element_id = ''b'' @ [CHR 0x27] @ ''chp_'' @ str_nat (i + 1) @ [CHR 0x27],
                  start_time = (let ms = fl (time_seconds (markers ! i) * 1000)
                                in if 0 \<le> ms then \<lfloor>ms\<rfloor> else \<lceil>ms\<rceil>),
                  end_time = (if i + 1 < length markers then start_time (CHAP tag ! (i + 1)) else 0),
                  start_offset = 0, end_offset = 0,
                  sub_frames = []\<rparr>) [0..<length markers]"
      by (subst closed, rule map_cong[OF refl]) (simp add: st py_int_def Let_def)
    have "map element_id (CHAP tag) =
        map (\<lambda>i. ''b'' @ [CHR 0x27] @ ''chp_'' @ str_nat (i + 1) @ [CHR 0x27]) [0..<length markers]"
      by (simp add: closed)
    then show "distinct (map element_id (CHAP tag))"
      by (simp only: chap_ids_distinct)
  }
  show "map_option (\<lambda>tag. map end_time (CHAP tag))
     (write_mp3_chapter_tags
        [\<lparr>time_seconds = 1 / 2, title = ta\<rparr>,
         \<lparr>time_seconds = 3602879701896397 / 1125899906842624, title = tb\<rparr>,
         \<lparr>time_seconds = 9, title = tc\<rparr>] metadata) = Some [3200, 9000, 0]"
    by (simp add: write_mp3_chapter_tags_def Let_def example_products py_int_numeral
        chap_writable_def fits_uint32_def)
qed

text \<open>
  The markers at 0.5 s, 3.2 s and 9.0 s: the three frames that are saved.
\<close>

theorem mp3_chapter_frames_witness:
  "\<exists>tag. write_mp3_chapter_tags
        [\<lparr>time_seconds = 1 / 2, title = ''One''\<rparr>,
         \<lparr>time_seconds = 3602879701896397 / 1125899906842624, title = ''Two''\<rparr>,
         \<lparr>time_seconds = 9, title = ''Three''\<rparr>] fmempty = Some tag \<and>
      map element_id (CHAP tag) =
        [''b'' @ [CHR 0x27] @ ''chp_1'' @ [CHR 0x27], ''b'' @ [CHR 0x27] @ ''chp_2'' @ [CHR 0x27],
         ''b'' @ [CHR 0x27] @ ''chp_3'' @ [CHR 0x27]] \<and>
      map start_time (CHAP tag) = [500, 3200, 9000] \<and>
      map end_time (CHAP tag) = [3200, 9000, 0]"
proof -
  let ?ms = "[\<lparr>time_seconds = 1 / 2, title = ''One''\<rparr>,
         \<lparr>time_seconds = 3602879701896397 / 1125899906842624, title = ''Two''\<rparr>,
         \<lparr>time_seconds = 9, title = ''Three''\<rparr>]"
  note t = mp3_chapter_frames [of ?ms fmempty]
  have "\<forall>m\<in>set ?ms. 0 \<le> py_int (fl (time_seconds m * 1000)) \<and>
                        py_int (fl (time_seconds m * 1000)) < 2 ^ 32"
    by (simp add: example_products py_int_numeral)
  with t[THEN conjunct1] have "write_mp3_chapter_tags ?ms fmempty \<noteq> None" by blast
  then obtain tag where s: "write_mp3_chapter_tags ?ms fmempty = Some tag" by blast
  have three: "[0..<length ?ms] = [0, Suc 0, Suc (Suc 0)]"
    by (simp add: upt_rec)
  from t[of tag, THEN conjunct2, THEN conjunct1, THEN mp, OF s, THEN conjunct1]
  have c: "CHAP tag =
      [\<lparr>element_id = ''b'' @ [CHR 0x27] @ ''chp_1'' @ [CHR 0x27], start_time = 500,
        end_time = start_time (CHAP tag ! Suc 0), start_offset = 0, end_offset = 0, sub_frames = []\<rparr>,
       \<lparr>element_id = ''b'' @ [CHR 0x27] @ ''chp_2'' @ [CHR 0x27], start_time = 3200,
        end_time = start_time (CHAP tag ! Suc (Suc 0)), start_offset = 0, end_offset = 0, sub_frames = []\<rparr>,
       \<lparr>element_id = ''b'' @ [CHR 0x27] @ ''chp_3'' @ [CHR 0x27], start_time = 9000,
        end_time = 0, start_offset = 0, end_offset = 0, sub_frames = []\<rparr>]"
    unfolding three
    by (simp add: example_products example_ids Let_def)
  have s1: "start_time (CHAP tag ! Suc 0) = 3200" by (subst c) simp
  have s2: "start_time (CHAP tag ! Suc (Suc 0)) = 9000" by (subst c) simp
  have r: "map element_id (CHAP tag) =
        [''b'' @ [CHR 0x27] @ ''chp_1'' @ [CHR 0x27], ''b'' @ [CHR 0x27] @ ''chp_2'' @ [CHR 0x27],
         ''b'' @ [CHR 0x27] @ ''chp_3'' @ [CHR 0x27]]"
    "map start_time (CHAP tag) = [500, 3200, 9000]"
    "map end_time (CHAP tag) = [3200, 9000, 0]"
    by (subst c, simp add: s1 s2)+
  show ?thesis
    by (rule exI[of _ tag]) (simp only: s r simp_thms)
qed

text \<open>
  Claim C7 as stated fails: a marker at 1/128 s has the product 7.8125 and starts at
  7 ms, while rounding gives 8 ms.
\<close>

theorem mp3_chapter_start_truncated:
  "map_option (\<lambda>tag. map start_time (CHAP tag))
     (write_mp3_chapter_tags [\<lparr>time_seconds = 1 / 128, title = ''A''\<rparr>] fmempty) \<noteq>
   Some [round (fl (1 / 128 * 1000))]"
proof -
  have "py_int (125 / 16) = 7"
    by (simp add: py_int_def floor_rat_numeral)
  moreover have "round (125 / 16 :: rat) = 8"
    by (simp add: round_def floor_rat_numeral)
  ultimately show ?thesis
    by (simp add: write_mp3_chapter_tags_def Let_def example_products
        chap_writable_def fits_uint32_def)
qed

subsection \<open>Existing output files\<close>

lemma digit_char_ascii: "d < 10 \<Longrightarrow> is_ascii_digit (digit_char d)"
proof -
  assume "d < 10"
  then have "d \<in> {0, 1, 2, 3, 4, 5, 6, 7, 8, 9}" by auto
  then show ?thesis by (auto simp: digit_char_def is_ascii_digit_def)
qed

lemma str_nat_ascii_digits: "list_all is_ascii_digit (str_nat n)"
proof (induction n rule: str_nat.induct)
  case (1 n)
  show ?case
  proof (cases "n < 10")
    case True
    then show ?thesis
      by (subst str_nat.simps) (simp add: digit_char_ascii)
  next
    case False
    with 1 show ?thesis
      by (subst str_nat.simps) (simp add: digit_char_ascii)
  qed
qed

lemma ascii_digit_is_digit: "is_ascii_digit c \<Longrightarrow> is_digit c"
  by (simp add: is_ascii_digit_def is_digit_def Let_def)

lemma str_nat_selection:
  "str_nat n \<noteq> ''a''" "str_nat n \<noteq> ''s''" "str_nat n \<noteq> []"
  "list_all is_digit (str_nat n)"
proof -
  have d: "list_all is_ascii_digit (str_nat n)" by (rule str_nat_ascii_digits)
  have "\<not> list_all is_ascii_digit ''a''" "\<not> list_all is_ascii_digit ''s''"
    by (simp_all add: is_ascii_digit_def)
  with d show "str_nat n \<noteq> ''a''" "str_nat n \<noteq> ''s''" by auto
  show "str_nat n \<noteq> []" by (subst str_nat.simps) simp
  from d show "list_all is_digit (str_nat n)"
    by (simp add: list_all_iff ascii_digit_is_digit)
qed

lemma single_chapter_exists:
  "fs (chapter_final_path a p (fst (segs ! nat (idx - 1))) idx) \<noteq> None \<Longrightarrow>
     single_chapter e a segs idx p md done_msgs fs =
       (False, [Warning_output_exists (chapter_final_path a p (fst (segs ! nat (idx - 1))) idx)], fs)"
  by (simp add: single_chapter_def Let_def)

lemma isinstance_int_always: "isinstance_int v"
  by (simp add: isinstance_int_def split: pyval.split)

lemma split_chapters_skip:
  assumes "fs (if mp3 a then with_suffix (chapter_ogg_path p (fst seg) (int i)) ''.mp3''
               else chapter_ogg_path p (fst seg) (int i)) \<noteq> None"
  shows "split_chapters e a p md i (seg # rest) fs =
           (Skipping_chapter (fst seg)
              (if mp3 a then with_suffix (chapter_ogg_path p (fst seg) (int i)) ''.mp3''
               else chapter_ogg_path p (fst seg) (int i))
              # fst (split_chapters e a p md (Suc i) rest fs),
            snd (split_chapters e a p md (Suc i) rest fs))"
  using assms by (simp add: Let_def split: prod.split)

text \<open>
  Claim C5, as the code has it. When the final output path of the target exists, the
  run leaves the filesystem exactly as it was: in standard single-file mode, in direct
  chapter mode and for a single chapter chosen in the interactive menu. Only the
  standard mode ends the process with status 1; the two chapter modes print a warning,
  return, and the process ends with status 0. The split loop skips a chapter whose
  output exists and goes on with the remaining chapters on the unchanged filesystem.
\<close>

theorem existing_output_not_overwritten:
  assumes "prepare e a fs = Inr (cv, p, segs, md)"
  shows "(\<not> truthy cv \<and> fs (with_suffix p (if mp3 a then ''.mp3'' else ''.ogg'')) \<noteq> None \<longrightarrow>
            fst (main e a fs) = 1 \<and> snd (snd (main e a fs)) = fs) \<and>
         (truthy cv \<and> 1 \<le> int_value cv \<and> int_value cv \<le> int (length segs) \<and>
          fs (chapter_final_path a p (fst (segs ! nat (int_value cv - 1))) (int_value cv)) \<noteq> None \<longrightarrow>
            fst (main e a fs) = 0 \<and> snd (snd (main e a fs)) = fs) \<and>
         (truthy cv \<and> \<not> (1 \<le> int_value cv \<and> int_value cv \<le> int (length segs)) \<and>
          typed_selection e = str_nat k \<and> 1 \<le> k \<and> k \<le> length segs \<and>
          fs (chapter_final_path a p (fst (segs ! (k - 1))) (int k)) \<noteq> None \<longrightarrow>
            fst (main e a fs) = 0 \<and> snd (snd (main e a fs)) = fs) \<and>
         (fs (chapter_final_path a p (fst seg) (int i)) \<noteq> None \<longrightarrow>
            snd (split_chapters e a p md i (seg # rest) fs) =
              snd (split_chapters e a p md (Suc i) rest fs))"
proof (intro conjI impI)
  assume h: "\<not> truthy cv \<and> fs (with_suffix p (if mp3 a then ''.mp3'' else ''.ogg'')) \<noteq> None"
  then have "main e a fs =
      (1, [Output_exists_stop (with_suffix p (if mp3 a then ''.mp3'' else ''.ogg''))], fs)"
    using assms by (auto simp: main_def Let_def)
  then show "fst (main e a fs) = 1" "snd (snd (main e a fs)) = fs" by simp_all
next
  assume h: "truthy cv \<and> 1 \<le> int_value cv \<and> int_value cv \<le> int (length segs) \<and>
          fs (chapter_final_path a p (fst (segs ! nat (int_value cv - 1))) (int_value cv)) \<noteq> None"
  then have "run_chapter_logic e a segs cv p md fs =
      (False, [Direct_chapter (int_value cv) (fst (segs ! nat (int_value cv - 1))),
               Warning_output_exists (chapter_final_path a p (fst (segs ! nat (int_value cv - 1))) (int_value cv))],
       fs)"
    by (simp add: run_chapter_logic_def Let_def isinstance_int_always single_chapter_exists)
  with h assms have "main e a fs = (0,
      [Direct_chapter (int_value cv) (fst (segs ! nat (int_value cv - 1))),
       Warning_output_exists (chapter_final_path a p (fst (segs ! nat (int_value cv - 1))) (int_value cv))],
      fs)"
    by (simp add: main_def Let_def)
  then show "fst (main e a fs) = 0" "snd (snd (main e a fs)) = fs" by simp_all
next
  assume h: "truthy cv \<and> \<not> (1 \<le> int_value cv \<and> int_value cv \<le> int (length segs)) \<and>
          typed_selection e = str_nat k \<and> 1 \<le> k \<and> k \<le> length segs \<and>
          fs (chapter_final_path a p (fst (segs ! (k - 1))) (int k)) \<noteq> None"
  then have idx: "nat (int k - 1) = k - 1" by simp
  from h have ex: "fs (chapter_final_path a p (fst (segs ! nat (int k - 1))) (int k)) \<noteq> None"
    by (simp add: idx)
  have sc: "single_chapter e a segs (int k) p md [Single_chapter_finished] fs =
      (False, [Warning_output_exists (chapter_final_path a p (fst (segs ! nat (int k - 1))) (int k))], fs)"
    using ex by (rule single_chapter_exists)
  from h have "interactive e a segs p md fs =
      (False, [Interactive_started (length segs),
               Warning_output_exists (chapter_final_path a p (fst (segs ! nat (int k - 1))) (int k))], fs)"
    by (simp add: interactive_def Let_def str_nat_selection str_nat_ascii_digits
        nat_of_digits_str_nat sc)
  moreover from h have oor: "\<not> (1 \<le> int_value cv \<and> int_value cv \<le> int (length segs))"
    by blast
  ultimately have "run_chapter_logic e a segs cv p md fs =
      (False, [Warning_chapter_not_found (int_value cv) (length segs), Interactive_started (length segs),
               Warning_output_exists (chapter_final_path a p (fst (segs ! nat (int k - 1))) (int k))], fs)"
    unfolding run_chapter_logic_def Let_def if_not_P[OF oor]
    by (simp add: isinstance_int_always)
  with h assms have "main e a fs = (0,
      [Warning_chapter_not_found (int_value cv) (length segs), Interactive_started (length segs),
       Warning_output_exists (chapter_final_path a p (fst (segs ! nat (int k - 1))) (int k))], fs)"
    by (simp add: main_def Let_def)
  then show "fst (main e a fs) = 0" "snd (snd (main e a fs)) = fs" by simp_all
next
  assume "fs (chapter_final_path a p (fst seg) (int i)) \<noteq> None"
  then have "fs (if mp3 a then with_suffix (chapter_ogg_path p (fst seg) (int i)) ''.mp3''
               else chapter_ogg_path p (fst seg) (int i)) \<noteq> None"
    by (simp add: chapter_final_path_def Let_def)
  then have "split_chapters e a p md i (seg # rest) fs =
           (Skipping_chapter (fst seg)
              (if mp3 a then with_suffix (chapter_ogg_path p (fst seg) (int i)) ''.mp3''
               else chapter_ogg_path p (fst seg) (int i))
              # fst (split_chapters e a p md (Suc i) rest fs),
            snd (split_chapters e a p md (Suc i) rest fs))"
    by (rule split_chapters_skip)
  then show "snd (split_chapters e a p md i (seg # rest) fs) =
              snd (split_chapters e a p md (Suc i) rest fs)"
    by simp
qed


lemma text_to_ogg_total:
  assumes "0 < sr" and "\<forall>p. voice p \<noteq> None"
  shows "text_to_ogg voice sr segs \<noteq> None"
proof -
  from synth_segments_total[OF assms] obtain r where
    "synth_segments voice sr segs [] (0 + SILENCE_PRE_SECONDS) = Some r" by blast
  then show ?thesis by (cases r) (simp add: text_to_ogg_def)
qed

lemma example_names:
  "safe_filename ''One'' 1 = ''01_One''" "safe_filename ''Two'' 2 = ''02_Two''"
  "str_nat 2 = ''2''"
  by code_simp+

lemma example_paragraphs: "paragraphs_of ''abc'' = [''abc'']" "paragraphs_of ''def'' = [''def'']"
  by (rule paragraphs_of_no_blank; simp add: nth_Cons split: nat.split)+


theorem existing_output_not_overwritten_witness:
  "let e = \<lparr>to_path = (\<lambda>s. \<lparr>parent = ''.'', stem = takeWhile (\<lambda>c. c \<noteq> CHR ''.'') s,
                            suffix = dropWhile (\<lambda>c. c \<noteq> CHR ''.'') s\<rparr>),
            int_of_str = (\<lambda>s. if s = ''2'' then Some 2 else if s = ''9'' then Some 9 else None),
            str_of_float = (\<lambda>r. ''0.5''), float_of_str = (\<lambda>s. None),
            voice_found = True, voice_loads = True,
            tts_voice = (\<lambda>p. Some [length p * 2205]), tts_sample_rate = 22050,
            ffmpeg_installed = True, ffmpeg = (\<lambda>src dst. Converted),
            extractor = (\<lambda>p. Extracted [(''One'', ''abc''), (''Two'', ''def'')] fmempty),
            title_from_path = stem, typed_selection = ''2''\<rparr>;
       book = \<lparr>parent = ''.'', stem = ''book'', suffix = ''.txt''\<rparr>;
       md = fmupd ''artist'' ''Piper TTS'' (fmupd ''title'' ''book'' fmempty);
       a1 = \<lparr>input_file = ''book.txt'', mp3 = False, chapters = Absent\<rparr>;
       a2 = \<lparr>input_file = ''book.txt'', mp3 = False, chapters = Given ''2''\<rparr>;
       a3 = \<lparr>input_file = ''book.txt'', mp3 = False, chapters = Given ''9''\<rparr>;
       fs1 = [book \<mapsto> partial_file,
              \<lparr>parent = ''.'', stem = ''book'', suffix = ''.ogg''\<rparr> \<mapsto> partial_file];
       fs2 = [book \<mapsto> partial_file,
              \<lparr>parent = ''.'', stem = ''book_02_Two'', suffix = ''.ogg''\<rparr> \<mapsto> partial_file]
   in fst (main e a1 fs1) = 1 \<and> snd (snd (main e a1 fs1)) = fs1 \<and>
      fst (main e a2 fs2) = 0 \<and> snd (snd (main e a2 fs2)) = fs2 \<and>
      fst (main e a3 fs2) = 0 \<and> snd (snd (main e a3 fs2)) = fs2 \<and>
      snd (split_chapters e a2 book md 2 [(''Two'', ''def'')] fs2) = fs2"
proof -
  let ?e = "\<lparr>to_path = (\<lambda>s. \<lparr>parent = ''.'', stem = takeWhile (\<lambda>c. c \<noteq> CHR ''.'') s,
                            suffix = dropWhile (\<lambda>c. c \<noteq> CHR ''.'') s\<rparr>),
            int_of_str = (\<lambda>s. if s = ''2'' then Some 2 else if s = ''9'' then Some 9 else None),
            str_of_float = (\<lambda>r. ''0.5''), float_of_str = (\<lambda>s. None),
            voice_found = True, voice_loads = True,
            tts_voice = (\<lambda>p. Some [length p * 2205]), tts_sample_rate = 22050,
            ffmpeg_installed = True, ffmpeg = (\<lambda>src dst. Converted),
            extractor = (\<lambda>p. Extracted [(''One'', ''abc''), (''Two'', ''def'')] fmempty),
            title_from_path = stem, typed_selection = ''2''\<rparr>"
  let ?book = "\<lparr>parent = ''.'', stem = ''book'', suffix = ''.txt''\<rparr>"
  let ?md = "fmupd ''artist'' ''Piper TTS'' (fmupd ''title'' ''book'' fmempty)"
  let ?segs = "[(''One'', ''abc''), (''Two'', ''def'')]"
  let ?a1 = "\<lparr>input_file = ''book.txt'', mp3 = False, chapters = Absent\<rparr>"
  let ?a2 = "\<lparr>input_file = ''book.txt'', mp3 = False, chapters = Given ''2''\<rparr>"
  let ?a3 = "\<lparr>input_file = ''book.txt'', mp3 = False, chapters = Given ''9''\<rparr>"
  let ?fs1 = "[?book \<mapsto> partial_file,
              \<lparr>parent = ''.'', stem = ''book'', suffix = ''.ogg''\<rparr> \<mapsto> partial_file]"
  let ?fs2 = "[?book \<mapsto> partial_file,
              \<lparr>parent = ''.'', stem = ''book_02_Two'', suffix = ''.ogg''\<rparr> \<mapsto> partial_file]"
  have p1: "prepare ?e ?a1 ?fs1 = Inr (PyBool False, ?book, ?segs, ?md)"
    by (simp add: prepare_def normalize_chapters_def Let_def or_else_def)
  have p2: "prepare ?e ?a2 ?fs2 = Inr (PyInt 2, ?book, ?segs, ?md)"
    by (simp add: prepare_def normalize_chapters_def Let_def or_else_def)
  have p3: "prepare ?e ?a3 ?fs2 = Inr (PyInt 9, ?book, ?segs, ?md)"
    by (simp add: prepare_def normalize_chapters_def Let_def or_else_def)
  have r1: "fst (main ?e ?a1 ?fs1) = 1 \<and> snd (snd (main ?e ?a1 ?fs1)) = ?fs1"
    by (rule existing_output_not_overwritten[OF p1, THEN conjunct1, THEN mp])
       (simp add: truthy_def with_suffix_def)
  have r2: "fst (main ?e ?a2 ?fs2) = 0 \<and> snd (snd (main ?e ?a2 ?fs2)) = ?fs2"
    by (rule existing_output_not_overwritten[OF p2, THEN conjunct2, THEN conjunct1, THEN mp])
       (simp add: truthy_def int_value_def chapter_final_path_def chapter_ogg_path_def example_names)
  have r3: "fst (main ?e ?a3 ?fs2) = 0 \<and> snd (snd (main ?e ?a3 ?fs2)) = ?fs2"
    by (rule existing_output_not_overwritten[OF p3, THEN conjunct2, THEN conjunct2, THEN conjunct1, THEN mp, of 2])
       (simp add: truthy_def int_value_def chapter_final_path_def chapter_ogg_path_def example_names)
  have "snd (split_chapters ?e ?a2 ?book ?md 2 [(''Two'', ''def'')] ?fs2) =
        snd (split_chapters ?e ?a2 ?book ?md (Suc 2) [] ?fs2)"
    by (rule existing_output_not_overwritten[OF p2, THEN conjunct2, THEN conjunct2, THEN conjunct2, THEN mp])
       (simp add: chapter_final_path_def chapter_ogg_path_def example_names)
  then have r4: "snd (split_chapters ?e ?a2 ?book ?md 2 [(''Two'', ''def'')] ?fs2) = ?fs2"
    by simp
  from r1 r2 r3 r4 show ?thesis
    unfolding Let_def by blast
qed


text \<open>
  Claim C5 as stated fails: in direct chapter mode with the output of chapter 2 in
  place, nothing is written, but the process ends with status 0.
\<close>

theorem direct_chapter_existing_output_exits_zero:
  "let e = \<lparr>to_path = (\<lambda>s. \<lparr>parent = ''.'', stem = takeWhile (\<lambda>c. c \<noteq> CHR ''.'') s,
                            suffix = dropWhile (\<lambda>c. c \<noteq> CHR ''.'') s\<rparr>),
            int_of_str = (\<lambda>s. if s = ''2'' then Some 2 else if s = ''9'' then Some 9 else None),
            str_of_float = (\<lambda>r. ''0.5''), float_of_str = (\<lambda>s. None),
            voice_found = True, voice_loads = True,
            tts_voice = (\<lambda>p. Some [length p * 2205]), tts_sample_rate = 22050,
            ffmpeg_installed = True, ffmpeg = (\<lambda>src dst. Converted),
            extractor = (\<lambda>p. Extracted [(''One'', ''abc''), (''Two'', ''def'')] fmempty),
            title_from_path = stem, typed_selection = ''2''\<rparr>;
       book = \<lparr>parent = ''.'', stem = ''book'', suffix = ''.txt''\<rparr>;
       a = \<lparr>input_file = ''book.txt'', mp3 = False, chapters = Given ''2''\<rparr>;
       fs = [book \<mapsto> partial_file,
             \<lparr>parent = ''.'', stem = ''book_02_Two'', suffix = ''.ogg''\<rparr> \<mapsto> partial_file]
   in fst (main e a fs) = 0"
  by (simp add: Let_def main_def prepare_def normalize_chapters_def or_else_def truthy_def
      run_chapter_logic_def isinstance_int_def int_value_def single_chapter_def
      chapter_final_path_def chapter_ogg_path_def example_names)

subsection \<open>The primary file in a combined run with conversion\<close>

lemma ogg_neq_mp3: "with_suffix p ''.ogg'' \<noteq> with_suffix p ''.mp3''"
proof
  assume "with_suffix p ''.ogg'' = with_suffix p ''.mp3''"
  then have "suffix (with_suffix p ''.ogg'') = suffix (with_suffix p ''.mp3'')" by simp
  then show False by (simp add: with_suffix_def)
qed

lemma save_id3_other: "x \<noteq> mp3_path \<Longrightarrow> save_id3 mp3_path tag fs x = fs x"
  by (simp add: save_id3_def split: option.split)

lemma convert_keeps_source:
  assumes "convert_ogg_to_mp3 e ogg_path mp3_path False fs = (r, fs2)" and "ogg_path \<noteq> mp3_path"
  shows "fs2 ogg_path = fs ogg_path \<and> (r = Raised \<longleftrightarrow> (\<exists>l. ffmpeg e ogg_path mp3_path = Other_error l))"
  using assms
  by (cases "ffmpeg e ogg_path mp3_path") (auto simp: convert_ogg_to_mp3_def Let_def split: if_splits)

lemma convert_deletes_source:
  assumes "convert_ogg_to_mp3 e ogg_path mp3_path True fs = (r, fs2)" and "ogg_path \<noteq> mp3_path"
    and "fs ogg_path \<noteq> None"
  shows "(ffmpeg e ogg_path mp3_path = Converted \<longrightarrow> r = Returned True \<and> fs2 ogg_path = None) \<and>
         (ffmpeg e ogg_path mp3_path \<noteq> Converted \<longrightarrow> fs2 ogg_path = fs ogg_path) \<and>
         (r = Raised \<longleftrightarrow> (\<exists>l. ffmpeg e ogg_path mp3_path = Other_error l))"
  using assms
  by (cases "ffmpeg e ogg_path mp3_path") (auto simp: convert_ogg_to_mp3_def Let_def split: if_splits)

lemma main_try_reuse:
  assumes "mp3 a" and "fs ogg_path \<noteq> None" and "ogg_path \<noteq> mp3_path"
    and "main_try e a segments metadata ogg_path mp3_path fs = (raised, needed, fs1)"
  shows "\<not> needed \<and> fs1 ogg_path = fs ogg_path \<and>
         (raised \<longleftrightarrow> (\<exists>l. ffmpeg e ogg_path mp3_path = Other_error l))"
proof -
  obtain r fs2 where c: "convert_ogg_to_mp3 e ogg_path mp3_path False fs = (r, fs2)"
    by (cases "convert_ogg_to_mp3 e ogg_path mp3_path False fs") auto
  from convert_keeps_source[OF c assms(3)] have k: "fs2 ogg_path = fs ogg_path"
    "r = Raised \<longleftrightarrow> (\<exists>l. ffmpeg e ogg_path mp3_path = Other_error l)" by blast+
  from assms(1,2,4) c have "\<not> needed \<and> (raised \<longleftrightarrow> r = Raised) \<and>
      (fs1 = fs2 \<or> (\<exists>t. fs1 = save_id3 mp3_path t fs2))"
    by (cases r) (auto simp: main_try_def Let_def split: option.splits if_splits bool.splits)
  with k assms(3) show ?thesis by (auto simp: save_id3_other)
qed

lemma main_try_synthesize:
  assumes "mp3 a" and "fs ogg_path = None" and "ogg_path \<noteq> mp3_path"
    and "main_try e a segments metadata ogg_path mp3_path fs = (raised, needed, fs1)"
  shows "needed \<and>
         (\<not> voice_loads e \<longrightarrow> raised \<and> fs1 = fs) \<and>
         (voice_loads e \<and> text_to_ogg (tts_voice e) (tts_sample_rate e) segments = None \<longrightarrow>
            raised \<and> fs1 = fs(ogg_path \<mapsto> partial_file)) \<and>
         (voice_loads e \<and> text_to_ogg (tts_voice e) (tts_sample_rate e) segments \<noteq> None \<longrightarrow>
            (ffmpeg e ogg_path mp3_path = Converted \<longrightarrow> \<not> raised \<and> fs1 ogg_path = None) \<and>
            (ffmpeg e ogg_path mp3_path \<noteq> Converted \<longrightarrow> fs1 ogg_path \<noteq> None) \<and>
            (raised \<longleftrightarrow> (\<exists>l. ffmpeg e ogg_path mp3_path = Other_error l)))"
proof (cases "voice_loads e \<and> text_to_ogg (tts_voice e) (tts_sample_rate e) segments \<noteq> None")
  case False
  with assms(1,2,4) show ?thesis
    by (auto simp: main_try_def text_to_ogg_file_def Let_def split: option.splits if_splits)
next
  case True
  then obtain ms t where tt: "text_to_ogg (tts_voice e) (tts_sample_rate e) segments = Some (ms, t)"
    by auto
  let ?f = "\<lparr>vorbis = Some (write_ogg_markers (str_of_float e) ms metadata fmempty),
             seconds = Some t, id3_tags = None\<rparr>"
  let ?fs = "fs(ogg_path \<mapsto> ?f)"
  have syn: "text_to_ogg_file e segments ogg_path metadata fs = (Some ms, ?fs)"
    using True tt by (simp add: text_to_ogg_file_def)
  obtain r fs2 where c: "convert_ogg_to_mp3 e ogg_path mp3_path True ?fs = (r, fs2)"
    by (cases "convert_ogg_to_mp3 e ogg_path mp3_path True ?fs") auto
  have ex: "?fs ogg_path \<noteq> None" by simp
  note d = convert_deletes_source[OF c assms(3) ex]
  from assms(1,2,4) syn c have "needed \<and> (raised \<longleftrightarrow> r = Raised) \<and>
      (fs1 = fs2 \<or> (\<exists>tag. fs1 = save_id3 mp3_path tag fs2))"
    by (cases r; cases "write_mp3_chapter_tags ms metadata")
       (auto simp: main_try_def Let_def split: bool.splits)
  with d assms(3) True show ?thesis by (auto simp: save_id3_other)
qed


text \<open>
  Claim C10. A standard run with MP3 conversion, past the check that the MP3 file does
  not exist yet. If the OGG file existed before the run, it is reused and is the same
  file after the run, whether the run ends normally or in the error clean-up (which
  happens exactly when the conversion raises an error that \<open>convert_ogg_to_mp3\<close> does
  not catch). If the run synthesized the OGG file, the file is gone after a successful
  conversion, and it is gone after the error clean-up, which follows a failed synthesis
  or such an error of the conversion.
\<close>

theorem primary_file_deleted_only_if_created:
  assumes "prepare e a fs = Inr (cv, p, segs, md)" and "\<not> truthy cv" and "mp3 a"
    and "fs (with_suffix p ''.mp3'') = None"
  shows "(fs (with_suffix p ''.ogg'') \<noteq> None \<longrightarrow>
            snd (snd (main e a fs)) (with_suffix p ''.ogg'') = fs (with_suffix p ''.ogg'') \<and>
            (fst (main e a fs) = 1 \<longleftrightarrow>
               (\<exists>l. ffmpeg e (with_suffix p ''.ogg'') (with_suffix p ''.mp3'') = Other_error l))) \<and>
         (fs (with_suffix p ''.ogg'') = None \<and> voice_loads e \<and>
          text_to_ogg (tts_voice e) (tts_sample_rate e) segs \<noteq> None \<and>
          ffmpeg e (with_suffix p ''.ogg'') (with_suffix p ''.mp3'') = Converted \<longrightarrow>
            snd (snd (main e a fs)) (with_suffix p ''.ogg'') = None \<and> fst (main e a fs) = 0) \<and>
         (fs (with_suffix p ''.ogg'') = None \<and>
          (\<not> voice_loads e \<or> text_to_ogg (tts_voice e) (tts_sample_rate e) segs = None \<or>
           (\<exists>l. ffmpeg e (with_suffix p ''.ogg'') (with_suffix p ''.mp3'') = Other_error l)) \<longrightarrow>
            snd (snd (main e a fs)) (with_suffix p ''.ogg'') = None \<and> fst (main e a fs) = 1)"
proof -
  let ?ogg = "with_suffix p ''.ogg''" and ?mp3 = "with_suffix p ''.mp3''"
  obtain raised needed fs1 where t: "main_try e a segs md ?ogg ?mp3 fs = (raised, needed, fs1)"
    by (cases "main_try e a segs md ?ogg ?mp3 fs") auto
  let ?fs2 = "if fs1 ?ogg \<noteq> None \<and> needed then fs1(?ogg := None) else fs1"
  let ?fs3 = "if ?fs2 ?mp3 \<noteq> None \<and> mp3 a then ?fs2(?mp3 := None) else ?fs2"
  have m: "main e a fs = (if raised then (1, [Critical_error], ?fs3) else (0, [], fs1))"
    using assms t by (simp add: main_def Let_def)
  have code: "fst (main e a fs) = 1 \<longleftrightarrow> raised"
    by (simp add: m)
  have final: "snd (snd (main e a fs)) ?ogg =
      (if raised \<and> needed then None else fs1 ?ogg)"
    using ogg_neq_mp3[of p] by (auto simp: m)
  show ?thesis
  proof (cases "fs ?ogg = None")
    case False
    from main_try_reuse[OF assms(3) False ogg_neq_mp3 t] final code False
    show ?thesis by auto
  next
    case True
    note s = main_try_synthesize[OF assms(3) True ogg_neq_mp3 t]
    have a1: "snd (snd (main e a fs)) ?ogg = None \<and> fst (main e a fs) = 0"
      if "voice_loads e" "text_to_ogg (tts_voice e) (tts_sample_rate e) segs \<noteq> None"
        "ffmpeg e ?ogg ?mp3 = Converted"
      using s that final m by auto
    have a2: "snd (snd (main e a fs)) ?ogg = None \<and> fst (main e a fs) = 1"
      if "\<not> voice_loads e \<or> text_to_ogg (tts_voice e) (tts_sample_rate e) segs = None \<or>
           (\<exists>l. ffmpeg e ?ogg ?mp3 = Other_error l)"
    proof -
      from that s have r: "raised" by (cases "voice_loads e") auto
      with s have "needed" by simp
      with r final code show ?thesis by simp
    qed
    from True a1 a2 show ?thesis by blast
  qed
qed


theorem primary_file_deleted_only_if_created_witness:
  "let e = \<lparr>to_path = (\<lambda>s. \<lparr>parent = ''.'', stem = takeWhile (\<lambda>c. c \<noteq> CHR ''.'') s,
                            suffix = dropWhile (\<lambda>c. c \<noteq> CHR ''.'') s\<rparr>),
            int_of_str = (\<lambda>s. if s = ''2'' then Some 2 else if s = ''9'' then Some 9 else None),
            str_of_float = (\<lambda>r. ''0.5''), float_of_str = (\<lambda>s. None),
            voice_found = True, voice_loads = True,
            tts_voice = (\<lambda>p. Some [length p * 2205]), tts_sample_rate = 22050,
            ffmpeg_installed = True, ffmpeg = (\<lambda>src dst. Converted),
            extractor = (\<lambda>p. Extracted [(''One'', ''abc''), (''Two'', ''def'')] fmempty),
            title_from_path = stem, typed_selection = ''2''\<rparr>;
       book = \<lparr>parent = ''.'', stem = ''book'', suffix = ''.txt''\<rparr>;
       ogg = \<lparr>parent = ''.'', stem = ''book'', suffix = ''.ogg''\<rparr>;
       a = \<lparr>input_file = ''book.txt'', mp3 = True, chapters = Absent\<rparr>;
       reuse = [book \<mapsto> partial_file, ogg \<mapsto> partial_file];
       fresh = [book \<mapsto> partial_file]
   in snd (snd (main e a reuse)) ogg = Some partial_file \<and> fst (main e a reuse) \<noteq> 1 \<and>
      snd (snd (main (e\<lparr>ffmpeg := \<lambda>src dst. Other_error True\<rparr>) a reuse)) ogg = Some partial_file \<and>
      fst (main (e\<lparr>ffmpeg := \<lambda>src dst. Other_error True\<rparr>) a reuse) = 1 \<and>
      snd (snd (main e a fresh)) ogg = None \<and> fst (main e a fresh) = 0 \<and>
      snd (snd (main (e\<lparr>tts_voice := \<lambda>p. None\<rparr>) a fresh)) ogg = None \<and>
      fst (main (e\<lparr>tts_voice := \<lambda>p. None\<rparr>) a fresh) = 1"
proof -
  let ?e = "\<lparr>to_path = (\<lambda>s. \<lparr>parent = ''.'', stem = takeWhile (\<lambda>c. c \<noteq> CHR ''.'') s,
                            suffix = dropWhile (\<lambda>c. c \<noteq> CHR ''.'') s\<rparr>),
            int_of_str = (\<lambda>s. if s = ''2'' then Some 2 else if s = ''9'' then Some 9 else None),
            str_of_float = (\<lambda>r. ''0.5''), float_of_str = (\<lambda>s. None),
            voice_found = True, voice_loads = True,
            tts_voice = (\<lambda>p. Some [length p * 2205]), tts_sample_rate = 22050,
            ffmpeg_installed = True, ffmpeg = (\<lambda>src dst. Converted),
            extractor = (\<lambda>p. Extracted [(''One'', ''abc''), (''Two'', ''def'')] fmempty),
            title_from_path = stem, typed_selection = ''2''\<rparr>"
  let ?e1 = "?e\<lparr>ffmpeg := \<lambda>src dst. Other_error True\<rparr>"
  let ?e2 = "?e\<lparr>tts_voice := \<lambda>p. None\<rparr>"
  let ?book = "\<lparr>parent = ''.'', stem = ''book'', suffix = ''.txt''\<rparr>"
  let ?ogg = "\<lparr>parent = ''.'', stem = ''book'', suffix = ''.ogg''\<rparr>"
  let ?md = "fmupd ''artist'' ''Piper TTS'' (fmupd ''title'' ''book'' fmempty)"
  let ?segs = "[(''One'', ''abc''), (''Two'', ''def'')]"
  let ?a = "\<lparr>input_file = ''book.txt'', mp3 = True, chapters = Absent\<rparr>"
  let ?reuse = "[?book \<mapsto> partial_file, ?ogg \<mapsto> partial_file]"
  let ?fresh = "[?book \<mapsto> partial_file]"
  have og: "with_suffix ?book ''.ogg'' = ?ogg" by (simp add: with_suffix_def)
  have nt: "\<not> truthy (PyBool False)" by (simp add: truthy_def)
  have m: "mp3 ?a" by simp
  have p: "prepare ?e ?a ?reuse = Inr (PyBool False, ?book, ?segs, ?md)"
    "prepare ?e1 ?a ?reuse = Inr (PyBool False, ?book, ?segs, ?md)"
    "prepare ?e ?a ?fresh = Inr (PyBool False, ?book, ?segs, ?md)"
    "prepare ?e2 ?a ?fresh = Inr (PyBool False, ?book, ?segs, ?md)"
    by (simp_all add: prepare_def normalize_chapters_def Let_def or_else_def)
  have n: "?reuse (with_suffix ?book ''.mp3'') = None" "?fresh (with_suffix ?book ''.mp3'') = None"
    by (simp_all add: with_suffix_def)
  have ok: "text_to_ogg (tts_voice ?e) (tts_sample_rate ?e) ?segs \<noteq> None"
    by (rule text_to_ogg_total) simp_all
  have bad: "text_to_ogg (tts_voice ?e2) (tts_sample_rate ?e2) ?segs = None"
    by (simp add: text_to_ogg_def example_paragraphs)
  have c: "?reuse (with_suffix ?book ''.ogg'') \<noteq> None" "?fresh (with_suffix ?book ''.ogg'') = None"
    by (simp_all add: with_suffix_def)
  have f: "ffmpeg ?e (with_suffix ?book ''.ogg'') (with_suffix ?book ''.mp3'') = Converted"
    "ffmpeg ?e1 (with_suffix ?book ''.ogg'') (with_suffix ?book ''.mp3'') = Other_error True"
    "voice_loads ?e"
    by simp_all
  have v: "?reuse ?ogg = Some partial_file" by simp
  note t1 = primary_file_deleted_only_if_created[OF p(1) nt m n(1), THEN conjunct1, THEN mp, OF c(1)]
  from t1 have "snd (snd (main ?e ?a ?reuse)) (with_suffix ?book ''.ogg'') =
      ?reuse (with_suffix ?book ''.ogg'')"
    by (rule conjunct1)
  then have r1a: "snd (snd (main ?e ?a ?reuse)) ?ogg = Some partial_file"
    unfolding og v .
  from t1 have "fst (main ?e ?a ?reuse) = 1 \<longleftrightarrow>
      (\<exists>l. ffmpeg ?e (with_suffix ?book ''.ogg'') (with_suffix ?book ''.mp3'') = Other_error l)"
    by (rule conjunct2)
  then have r1b: "fst (main ?e ?a ?reuse) \<noteq> 1"
    unfolding f(1) by blast
  note r1 = conjI[OF r1a r1b]
  note t2 = primary_file_deleted_only_if_created[OF p(2) nt m n(1), THEN conjunct1, THEN mp, OF c(1)]
  from t2 have "snd (snd (main ?e1 ?a ?reuse)) (with_suffix ?book ''.ogg'') =
      ?reuse (with_suffix ?book ''.ogg'')"
    by (rule conjunct1)
  then have r2a: "snd (snd (main ?e1 ?a ?reuse)) ?ogg = Some partial_file"
    unfolding og v .
  from t2 have "fst (main ?e1 ?a ?reuse) = 1 \<longleftrightarrow>
      (\<exists>l. ffmpeg ?e1 (with_suffix ?book ''.ogg'') (with_suffix ?book ''.mp3'') = Other_error l)"
    by (rule conjunct2)
  then have r2b: "fst (main ?e1 ?a ?reuse) = 1"
    unfolding f(2) by blast
  note r2 = conjI[OF r2a r2b]
  have h3: "?fresh (with_suffix ?book ''.ogg'') = None \<and> voice_loads ?e \<and>
      text_to_ogg (tts_voice ?e) (tts_sample_rate ?e) ?segs \<noteq> None \<and>
      ffmpeg ?e (with_suffix ?book ''.ogg'') (with_suffix ?book ''.mp3'') = Converted"
    using c(2) f(1,3) ok by blast
  note t3 = primary_file_deleted_only_if_created[OF p(3) nt m n(2), THEN conjunct2, THEN conjunct1, THEN mp, OF h3]
  have r3: "snd (snd (main ?e ?a ?fresh)) ?ogg = None \<and> fst (main ?e ?a ?fresh) = 0"
    using t3 unfolding og .
  have h4: "?fresh (with_suffix ?book ''.ogg'') = None \<and>
      (\<not> voice_loads ?e2 \<or> text_to_ogg (tts_voice ?e2) (tts_sample_rate ?e2) ?segs = None \<or>
       (\<exists>l. ffmpeg ?e2 (with_suffix ?book ''.ogg'') (with_suffix ?book ''.mp3'') = Other_error l))"
    using c(2) bad by blast
  note t4 = primary_file_deleted_only_if_created[OF p(4) nt m n(2), THEN conjunct2, THEN conjunct2, THEN mp, OF h4]
  have r4: "snd (snd (main ?e2 ?a ?fresh)) ?ogg = None \<and> fst (main ?e2 ?a ?fresh) = 1"
    using t4 unfolding og .
  from r1 r2 r3 r4 show ?thesis
    unfolding Let_def by blast
qed

subsection \<open>Resolution of the chapter selection\<close>

text \<open>
  Claim C8 does not hold on the code. A bare \<open>-k\<close> is normalised to \<open>True\<close>, and
  \<open>run_chapter_logic\<close> tests \<open>isinstance(cli_chapters_value, int)\<close> first, which
  holds for \<open>True\<close>: with at least one segment the run synthesizes chapter 1 directly
  (its file is written, the only message is that of the direct mode) and the
  interactive menu never starts. The same happens for every value that is not an
  integer. And \<open>-k 0\<close> is normalised to the integer 0, which \<open>if args.chapters:\<close>
  takes as false: the run is a standard single-file synthesis, with neither a
  warning nor the menu.
\<close>

theorem bare_flag_runs_direct_chapter_one:
  "let e = \<lparr>to_path = (\<lambda>s. \<lparr>parent = ''.'', stem = takeWhile (\<lambda>c. c \<noteq> CHR ''.'') s,
                            suffix = dropWhile (\<lambda>c. c \<noteq> CHR ''.'') s\<rparr>),
            int_of_str = (\<lambda>s. if s = ''0'' then Some 0 else None),
            str_of_float = (\<lambda>r. ''0.5''), float_of_str = (\<lambda>s. None),
            voice_found = True, voice_loads = True,
            tts_voice = (\<lambda>p. Some [length p * 2205]), tts_sample_rate = 22050,
            ffmpeg_installed = True, ffmpeg = (\<lambda>src dst. Converted),
            extractor = (\<lambda>p. Extracted [(''One'', ''abc''), (''Two'', ''def'')] fmempty),
            title_from_path = stem, typed_selection = ''2''\<rparr>;
       book = \<lparr>parent = ''.'', stem = ''book'', suffix = ''.txt''\<rparr>;
       bare = \<lparr>input_file = ''book.txt'', mp3 = False, chapters = Bare_flag\<rparr>;
       zero = \<lparr>input_file = ''book.txt'', mp3 = False, chapters = Given ''0''\<rparr>;
       fs = [book \<mapsto> partial_file]
   in fst (snd (main e bare fs)) = [Direct_chapter 1 ''One''] \<and>
      snd (snd (main e bare fs)) \<lparr>parent = ''.'', stem = ''book_01_One'', suffix = ''.ogg''\<rparr> \<noteq> None \<and>
      fst (snd (main e zero fs)) = [] \<and>
      snd (snd (main e zero fs)) \<lparr>parent = ''.'', stem = ''book'', suffix = ''.ogg''\<rparr> \<noteq> None"
  by (simp add: Let_def main_def prepare_def normalize_chapters_def or_else_def truthy_def
      run_chapter_logic_def isinstance_int_def int_value_def single_chapter_def
      chapter_final_path_def chapter_ogg_path_def example_names
      synthesize_separate_chapter_def example_paragraphs
      main_try_def text_to_ogg_file_def text_to_ogg_def with_suffix_def)

end
